theory Spec2Isabelle
  imports Main
begin

section \<open>Class-level event dispatch of Jii (\<open>base/Event.js\<close>)\<close>

text \<open>
  The class \<open>Event\<close> keeps one process-wide registry \<open>_events\<close>: for every event
  name an ordered array of items \<open>[cls, handler, data]\<close>. The static methods
  \<open>normalizeHandler\<close>, \<open>on\<close>, \<open>off\<close>, \<open>hasHandlers\<close> and \<open>trigger\<close> are embedded
  below, together with the small part of the JavaScript object model they rely on
  (object identity, own properties, the prototype chain, truthiness).
\<close>

subsection \<open>JavaScript values and the object heap\<close>

type_synonym ref = nat

text \<open>
  Numbers are modelled by integers (no \<open>NaN\<close>), so that \<open>===\<close> on values is HOL
  equality: primitives compare by value, objects by reference.
\<close>

datatype jsval = Undefined | Null | Bool bool | Num int | Str string | Obj ref

datatype kind = Plain | Function | Array | StringObject

text \<open>
  An object has a kind (\<open>typeof x === 'function'\<close>, \<open>Array.isArray(x)\<close>, a \<open>String\<close>
  object such as \<open>new String('a')\<close>, or none of these), a
  prototype (\<open>None\<close> is \<open>null\<close>) and own properties. The elements of an array are
  its own properties \<open>''0''\<close>, \<open>''1''\<close>, ... and \<open>''length''\<close>.
\<close>

record jsobj =
  kind :: kind
  proto :: "ref option"
  props :: "string \<rightharpoonup> jsval"

type_synonym heap = "ref \<Rightarrow> jsobj"

datatype error = ApplicationException string | TypeError | Thrown jsval

text \<open>\<open>!v\<close>: the falsy values.\<close>

fun falsy :: "jsval \<Rightarrow> bool" where
  "falsy Undefined = True"
| "falsy Null = True"
| "falsy (Bool b) = (\<not> b)"
| "falsy (Num n) = (n = 0)"
| "falsy (Str s) = (s = [])"
| "falsy (Obj r) = False"

fun truthy :: "jsval \<Rightarrow> bool" where
  "truthy v = (\<not> falsy v)"

text \<open>lodash \<open>isObject\<close>: true for objects and for functions alike.\<close>

fun isObject :: "jsval \<Rightarrow> bool" where
  "isObject (Obj r) = True"
| "isObject v = False"

text \<open>lodash \<open>isString\<close>: a primitive string or a \<open>String\<close> object.\<close>

fun isString :: "heap \<Rightarrow> jsval \<Rightarrow> bool" where
  "isString h (Str s) = True"
| "isString h (Obj r) = (kind (h r) = StringObject)"
| "isString h v = False"

fun isFunction :: "heap \<Rightarrow> jsval \<Rightarrow> bool" where
  "isFunction h (Obj r) = (kind (h r) = Function)"
| "isFunction h v = False"

fun isArray :: "heap \<Rightarrow> jsval \<Rightarrow> bool" where
  "isArray h (Obj r) = (kind (h r) = Array)"
| "isArray h v = False"

text \<open>lodash \<open>has(object, key)\<close>: an own property of a non-null value.\<close>

fun has :: "heap \<Rightarrow> jsval \<Rightarrow> string \<Rightarrow> bool" where
  "has h (Obj r) k = (props (h r) k \<noteq> None)"
| "has h v k = False"

fun own :: "heap \<Rightarrow> ref \<Rightarrow> string \<Rightarrow> jsval" where
  "own h r k = (case props (h r) k of None \<Rightarrow> Undefined | Some v \<Rightarrow> v)"

text \<open>\<open>handler.length\<close> of an array: \<open>length\<close> is an own property of every array.\<close>

fun arrayLength :: "heap \<Rightarrow> jsval \<Rightarrow> jsval" where
  "arrayLength h (Obj r) = own h r ''length''"
| "arrayLength h v = Undefined"

text \<open>
  Reading a property of an object walks the prototype chain. The walk is the
  engine's loop; on a heap whose chain is cyclic it does not return (\<open>None\<close>).
\<close>

partial_function (option) getProp :: "heap \<Rightarrow> ref \<Rightarrow> string \<Rightarrow> jsval option" where
  "getProp h r k =
     (case props (h r) k of
        Some v \<Rightarrow> Some v
      | None \<Rightarrow> (case proto (h r) of None \<Rightarrow> Some Undefined | Some p \<Rightarrow> getProp h p k))"

text \<open>Writing an own data property, as \<open>handler[0] = v\<close> does on an array.\<close>

definition setProp :: "heap \<Rightarrow> ref \<Rightarrow> string \<Rightarrow> jsval \<Rightarrow> heap" where
  "setProp h r k v = h(r := (h r)\<lparr>props := (props (h r))(k \<mapsto> v)\<rparr>)"

subsection \<open>The event record, normalized handlers and registry items\<close>

text \<open>The fields that \<open>Event.preInit\<close> initialises.\<close>

record event =
  e_params :: "(string \<times> jsval) list"
  e_data :: jsval
  e_handled :: bool
  e_sender :: jsval
  e_name :: jsval

definition new_Event :: event where
  "new_Event = \<lparr>e_params = [], e_data = Null, e_handled = False, e_sender = Null, e_name = Null\<rparr>"

text \<open>The result \<open>{context: ..., callback: ...}\<close> of \<open>normalizeHandler\<close>.\<close>

record nhandler =
  hcontext :: jsval
  hcallback :: jsval

text \<open>
  An item \<open>[cls, handler, data]\<close> of a binding list; \<open>item1\<close> is \<open>None\<close> when the
  stored handler is \<open>null\<close>.
\<close>

record item =
  item0 :: jsval
  item1 :: "nhandler option"
  item2 :: jsval

text \<open>
  What lies outside the repository: \<open>Jii.namespace\<close>, which is given the value as
  it is and may throw; \<open>JSON.stringify\<close>, which returns the text that is appended to
  the message or throws (a \<open>TypeError\<close> on a circular object); the
  property key of a value that is not a primitive string, property reads and prototypes of primitive
  values, and what a function object does when it is called with a receiver and
  an event record: it returns the record as it left it, or throws. A callback acts
  on the event record only; callbacks that attach or detach handlers while a
  dispatch is running are not modelled.
\<close>

record runtime =
  namespace :: "jsval \<Rightarrow> error + jsval"
  stringify :: "heap \<Rightarrow> jsval \<Rightarrow> error + string"
  toKey :: "heap \<Rightarrow> jsval \<Rightarrow> string"
  primGet :: "heap \<Rightarrow> jsval \<Rightarrow> string \<Rightarrow> jsval"
  primProto :: "jsval \<Rightarrow> ref"
  call :: "ref \<Rightarrow> jsval \<Rightarrow> event \<Rightarrow> error + event"

text \<open>\<open>v[k]\<close> for any value \<open>v\<close>.\<close>

fun getv :: "runtime \<Rightarrow> heap \<Rightarrow> jsval \<Rightarrow> string \<Rightarrow> (error + jsval) option" where
  "getv rt h (Obj r) k = map_option Inr (getProp h r k)"
| "getv rt h Undefined k = Some (Inl TypeError)"
| "getv rt h Null k = Some (Inl TypeError)"
| "getv rt h v k = Some (Inr (primGet rt h v k))"

fun propKey :: "runtime \<Rightarrow> heap \<Rightarrow> jsval \<Rightarrow> string" where
  "propKey rt h (Str s) = s"
| "propKey rt h v = toKey rt h v"

text \<open>\<open>Object.getPrototypeOf(v)\<close>.\<close>

fun getPrototypeOf :: "runtime \<Rightarrow> heap \<Rightarrow> jsval \<Rightarrow> error + jsval" where
  "getPrototypeOf rt h (Obj r) = Inr (case proto (h r) of None \<Rightarrow> Null | Some p \<Rightarrow> Obj p)"
| "getPrototypeOf rt h Undefined = Inl TypeError"
| "getPrototypeOf rt h Null = Inl TypeError"
| "getPrototypeOf rt h v = Inr (Obj (primProto rt v))"

text \<open>
  The state the static methods work on: the heap and \<open>Event._events\<close>. The latter is a
  plain object used as a map from event names to arrays; it is modelled as a map, so
  names that \<open>Object.prototype\<close> defines (\<open>'constructor'\<close>, \<open>'toString'\<close>, ...) are taken
  to be absent like any other name.
\<close>

record state =
  heap :: heap
  events :: "string \<rightharpoonup> item list"

subsection \<open>\<open>Event.normalizeHandler\<close>\<close>

text \<open>
  The second half of the two-element array case: \<open>handler[0]\<close>, when a string, is
  replaced in the array by \<open>Jii.namespace(handler[0])\<close>; then
  \<open>{context: handler[0], callback: handler[0][handler[1]]}\<close> is built.
\<close>

definition normalizePair ::
  "runtime \<Rightarrow> heap \<Rightarrow> ref \<Rightarrow> jsval \<Rightarrow> jsval \<Rightarrow> ((error + nhandler option) \<times> heap) option" where
  "normalizePair rt h a h0 h1 =
     (case (if isString h h0
            then (case namespace rt h0 of Inl e \<Rightarrow> Inl e
                  | Inr v \<Rightarrow> Inr (v, setProp h a ''0'' v))
            else Inr (h0, h)) of
        Inl e \<Rightarrow> Some (Inl e, h)
      | Inr (c, h') \<Rightarrow>
          (case getv rt h' c (propKey rt h' h1) of
             None \<Rightarrow> None
           | Some (Inl e) \<Rightarrow> Some (Inl e, h')
           | Some (Inr f) \<Rightarrow> Some (Inr (Some \<lparr>hcontext = c, hcallback = f\<rparr>), h')))"

text \<open>
  \<open>this\<close> is the class the static method is invoked on. An already normalized
  handler object is returned as it is; the model reads its own \<open>context\<close> and
  \<open>callback\<close> at once (no operation of the class changes them afterwards).
\<close>

definition normalizeHandler ::
  "runtime \<Rightarrow> heap \<Rightarrow> jsval \<Rightarrow> jsval \<Rightarrow> jsval \<Rightarrow> ((error + nhandler option) \<times> heap) option" where
  "normalizeHandler rt h this handler context0 =
     (let ctx = (if falsy context0 then Null else context0) in
      if falsy handler then Some (Inr None, h)
      else if isObject handler \<and> has h handler ''callback'' \<and> has h handler ''context'' then
        (case handler of
           Obj r \<Rightarrow> Some (Inr (Some \<lparr>hcontext = own h r ''context'', hcallback = own h r ''callback''\<rparr>), h)
         | _ \<Rightarrow> Some (Inl TypeError, h))
      else if isArray h handler \<and> arrayLength h handler = Num 2 then
        (case handler of
           Obj a \<Rightarrow>
             (case getProp h a ''0'' of
                None \<Rightarrow> None
              | Some h0 \<Rightarrow>
                  (case getProp h a ''1'' of
                     None \<Rightarrow> None
                   | Some h1 \<Rightarrow>
                       if isFunction h h0 \<and> isObject h1
                       then Some (Inr (Some \<lparr>hcontext = h1, hcallback = h0\<rparr>), h)
                       else normalizePair rt h a h0 h1))
         | _ \<Rightarrow> Some (Inl TypeError, h))
      else if isString h handler then
        (case getv rt h this (propKey rt h handler) of
           None \<Rightarrow> None
         | Some (Inl e) \<Rightarrow> Some (Inl e, h)
         | Some (Inr f) \<Rightarrow> Some (Inr (Some \<lparr>hcontext = ctx, hcallback = f\<rparr>), h))
      else if isFunction h handler then
        Some (Inr (Some \<lparr>hcontext = ctx, hcallback = handler\<rparr>), h)
      else
        (case stringify rt h handler of
           Inl e \<Rightarrow> Some (Inl e, h)
         | Inr s \<Rightarrow> Some (Inl (ApplicationException (''Wrong handler format:'' @ s)), h)))"

subsection \<open>\<open>Event.on\<close>\<close>

text \<open>\<open>if (_isString(cls)) { cls = Jii.namespace(cls); }\<close>\<close>

definition resolveCls :: "runtime \<Rightarrow> heap \<Rightarrow> jsval \<Rightarrow> error + jsval" where
  "resolveCls rt h cls = (if isString h cls then namespace rt cls else Inr cls)"

text \<open>
  \<open>Event._events\<close> is initialised to \<open>{}\<close> when the module is loaded, so the test
  \<open>!this._events\<close> is always false; \<open>!this._events[name]\<close> holds exactly when the
  name has no list (an array, even an empty one, is truthy). \<open>normalizeHandler\<close> is
  called without a context. In the \<open>else\<close> branch the list exists; \<open>unshift\<close> on a
  missing list would throw.
\<close>

definition on ::
  "runtime \<Rightarrow> jsval \<Rightarrow> state \<Rightarrow> jsval \<Rightarrow> string \<Rightarrow> jsval \<Rightarrow> jsval \<Rightarrow> jsval
     \<Rightarrow> ((error + unit) \<times> state) option" where
  "on rt this st cls name handler data isAppend =
     (let data1 = (if falsy data then Null else data);
          isAppend1 = (if isAppend = Undefined then Bool True else isAppend)
      in case resolveCls rt (heap st) cls of
           Inl e \<Rightarrow> Some (Inl e, st)
         | Inr cls1 \<Rightarrow>
             (case normalizeHandler rt (heap st) this handler Undefined of
                None \<Rightarrow> None
              | Some (Inl e, h') \<Rightarrow> Some (Inl e, st\<lparr>heap := h'\<rparr>)
              | Some (Inr nh, h') \<Rightarrow>
                  (let new = \<lparr>item0 = cls1, item1 = nh, item2 = data1\<rparr> in
                   if truthy isAppend1 \<or> events st name = None then
                     (let items = (case events st name of None \<Rightarrow> [] | Some xs \<Rightarrow> xs) in
                      if find (\<lambda>item. item0 item = cls1) items = None
                      then Some (Inr (), \<lparr>heap = h', events = (events st)(name \<mapsto> items @ [new])\<rparr>)
                      else Some (Inr (), \<lparr>heap = h', events = (events st)(name \<mapsto> items)\<rparr>))
                   else
                     (case events st name of
                        None \<Rightarrow> Some (Inl TypeError, st\<lparr>heap := h'\<rparr>)
                      | Some xs \<Rightarrow> Some (Inr (), \<lparr>heap = h', events = (events st)(name \<mapsto> new # xs)\<rparr>)))))"

subsection \<open>\<open>Event.off\<close>\<close>

text \<open>
  The callback of \<open>filter\<close>: an item is kept when
  \<open>item[0] !== cls && (!handler || item[1].callback === handler.callback)\<close>.
  Reading \<open>item[1].callback\<close> of an item stored with a \<open>null\<close> handler throws.
\<close>

fun offKeeps :: "jsval \<Rightarrow> nhandler option \<Rightarrow> item \<Rightarrow> error + bool" where
  "offKeeps cls nh item =
     (if item0 item \<noteq> cls then
        (case nh of
           None \<Rightarrow> Inr True
         | Some n \<Rightarrow>
             (case item1 item of
                None \<Rightarrow> Inl TypeError
              | Some m \<Rightarrow> Inr (hcallback m = hcallback n)))
      else Inr False)"

fun offFilter :: "jsval \<Rightarrow> nhandler option \<Rightarrow> item list \<Rightarrow> error + item list" where
  "offFilter cls nh [] = Inr []"
| "offFilter cls nh (item # items) =
     (case offKeeps cls nh item of
        Inl e \<Rightarrow> Inl e
      | Inr keep \<Rightarrow>
          (case offFilter cls nh items of
             Inl e \<Rightarrow> Inl e
           | Inr rest \<Rightarrow> Inr (if keep then item # rest else rest)))"

definition off ::
  "runtime \<Rightarrow> jsval \<Rightarrow> state \<Rightarrow> jsval \<Rightarrow> string \<Rightarrow> jsval \<Rightarrow> ((error + bool) \<times> state) option" where
  "off rt this st cls name handler =
     (let handler1 = (if falsy handler then Null else handler)
      in case resolveCls rt (heap st) cls of
           Inl e \<Rightarrow> Some (Inl e, st)
         | Inr cls1 \<Rightarrow>
             (case normalizeHandler rt (heap st) this handler1 Undefined of
                None \<Rightarrow> None
              | Some (Inl e, h') \<Rightarrow> Some (Inl e, st\<lparr>heap := h'\<rparr>)
              | Some (Inr nh, h') \<Rightarrow>
                  (case events st name of
                     None \<Rightarrow> Some (Inr False, st\<lparr>heap := h'\<rparr>)
                   | Some items \<Rightarrow>
                       (case offFilter cls1 nh items of
                          Inl e \<Rightarrow> Some (Inl e, st\<lparr>heap := h'\<rparr>)
                        | Inr kept \<Rightarrow>
                            Some (Inr (length kept \<noteq> length items),
                                  \<lparr>heap = h', events = (events st)(name \<mapsto> kept)\<rparr>)))))"

subsection \<open>\<open>Event.hasHandlers\<close>\<close>

partial_function (option) hasHandlersLoop ::
  "runtime \<Rightarrow> heap \<Rightarrow> item list \<Rightarrow> jsval \<Rightarrow> (error + bool) option" where
  "hasHandlersLoop rt h items cls =
     (if find (\<lambda>item. item0 item = cls) items \<noteq> None then Some (Inr True)
      else (case getPrototypeOf rt h cls of
              Inl e \<Rightarrow> Some (Inl e)
            | Inr p \<Rightarrow> if falsy p then Some (Inr False) else hasHandlersLoop rt h items p))"

definition hasHandlers :: "runtime \<Rightarrow> state \<Rightarrow> jsval \<Rightarrow> string \<Rightarrow> (error + bool) option" where
  "hasHandlers rt st cls name =
     (case events st name of
        None \<Rightarrow> Some (Inr False)
      | Some items \<Rightarrow>
          (case resolveCls rt (heap st) cls of
             Inl e \<Rightarrow> Some (Inl e)
           | Inr cls1 \<Rightarrow> hasHandlersLoop rt (heap st) items cls1))"

subsection \<open>\<open>Event.trigger\<close>\<close>

text \<open>
  A dispatch is observed through the calls it makes: for each call the item
  whose callback was invoked, the event record passed, and what the callback did
  (the record as it left it, or the error it threw).
\<close>

type_synonym invocation = "item \<times> event \<times> (error + event)"

text \<open>
  The result of a dispatch: the error that ended it (if any), the event record and
  the calls made, in order.
\<close>

type_synonym dispatch = "error option \<times> event \<times> invocation list"

text \<open>
  \<open>item[1].callback.call(item[1].context, event)\<close>: throws when the stored handler is
  \<open>null\<close> or its callback is not a function; otherwise the function object runs.
\<close>

fun invoke :: "runtime \<Rightarrow> heap \<Rightarrow> item \<Rightarrow> event \<Rightarrow> error + event" where
  "invoke rt h item ev =
     (case item1 item of
        None \<Rightarrow> Inl TypeError
      | Some nh \<Rightarrow>
          (case hcallback nh of
             Obj f \<Rightarrow> if kind (h f) = Function then call rt f (hcontext nh) ev else Inl TypeError
           | _ \<Rightarrow> Inl TypeError))"

fun callable :: "heap \<Rightarrow> item \<Rightarrow> bool" where
  "callable h item =
     (case item1 item of
        None \<Rightarrow> False
      | Some nh \<Rightarrow> isFunction h (hcallback nh))"

text \<open>
  The \<open>forEach\<close> over the list at one level of the hierarchy, with the local
  \<open>isHandled\<close>. A callback that throws ends the dispatch.
\<close>

fun forEachItem ::
  "runtime \<Rightarrow> heap \<Rightarrow> jsval \<Rightarrow> item list \<Rightarrow> bool \<Rightarrow> event \<Rightarrow> invocation list
     \<Rightarrow> error option \<times> bool \<times> event \<times> invocation list" where
  "forEachItem rt h cls [] isHandled ev cs = (None, isHandled, ev, cs)"
| "forEachItem rt h cls (item # items) isHandled ev cs =
     (if isHandled \<or> item0 item \<noteq> cls then forEachItem rt h cls items isHandled ev cs
      else
        (let ev1 = ev\<lparr>e_data := item2 item\<rparr> in
         if callable h item then
           (case invoke rt h item ev1 of
              Inl e \<Rightarrow> (Some e, isHandled, ev1, cs @ [(item, ev1, Inl e)])
            | Inr ev2 \<Rightarrow>
                forEachItem rt h cls items (e_handled ev2) ev2 (cs @ [(item, ev1, Inr ev2)]))
         else (Some TypeError, isHandled, ev1, cs)))"

partial_function (option) triggerLoop ::
  "runtime \<Rightarrow> heap \<Rightarrow> item list \<Rightarrow> jsval \<Rightarrow> event \<Rightarrow> invocation list \<Rightarrow> dispatch option" where
  "triggerLoop rt h items cls ev cs =
     (case forEachItem rt h cls items False ev cs of
        (Some e, isHandled, ev', cs') \<Rightarrow> Some (Some e, ev', cs')
      | (None, isHandled, ev', cs') \<Rightarrow>
          if isHandled then Some (None, ev', cs')
          else (case getPrototypeOf rt h cls of
                  Inl e \<Rightarrow> Some (Some e, ev', cs')
                | Inr p \<Rightarrow> if falsy p then Some (None, ev', cs')
                           else triggerLoop rt h items p ev' cs'))"

text \<open>
  \<open>trigger\<close> returns nothing; the model returns the dispatch it performed:
  \<open>Some None\<close> when the name has no list and nothing happens, \<open>Some (Some d)\<close> for the
  dispatch \<open>d\<close>, and \<open>None\<close> when the call does not return.
\<close>

definition trigger ::
  "runtime \<Rightarrow> state \<Rightarrow> jsval \<Rightarrow> string \<Rightarrow> event option \<Rightarrow> dispatch option option" where
  "trigger rt st cls name event =
     (case events st name of
        None \<Rightarrow> Some None
      | Some items \<Rightarrow>
          (let ev0 = (case event of None \<Rightarrow> new_Event | Some e \<Rightarrow> e);
               ev1 = ev0\<lparr>e_handled := False, e_name := Str name\<rparr>
           in case resolveCls rt (heap st) cls of
                Inl e \<Rightarrow> Some (Some (Some e, ev1, []))
              | Inr cls1 \<Rightarrow>
                  (let ev2 = (if isObject cls1 \<and> e_sender ev1 = Null
                              then ev1\<lparr>e_sender := cls1\<rparr> else ev1)
                   in case (if isObject cls1 then getv rt (heap st) cls1 ''constructor''
                            else Some (Inr cls1)) of
                        None \<Rightarrow> None
                      | Some (Inl e) \<Rightarrow> Some (Some (Some e, ev2, []))
                      | Some (Inr cls2) \<Rightarrow>
                          map_option Some (triggerLoop rt (heap st) items cls2 ev2 []))))"

subsection \<open>A small world to run the methods in\<close>

text \<open>
  The objects of a program with \<open>class A {}\<close>, \<open>class B extends A {}\<close>,
  \<open>class C extends B {}\<close>, one instance of each, two handler functions, the
  arrays \<open>['A', 'log']\<close> and \<open>['Z', 'log']\<close>, an object \<open>cyclic\<close> with
  \<open>cyclic.self === cyclic\<close> and the object \<open>new String('log')\<close>; the built-in objects
  they hang from are laid out as the language defines them.
\<close>

definition mkobj :: "kind \<Rightarrow> ref option \<Rightarrow> (string \<times> jsval) list \<Rightarrow> jsobj" where
  "mkobj k p ps = \<lparr>kind = k, proto = p, props = map_of ps\<rparr>"

abbreviation ObjectPrototype :: ref where "ObjectPrototype \<equiv> 0"
abbreviation FunctionPrototype :: ref where "FunctionPrototype \<equiv> 1"
abbreviation FunctionCtor :: ref where "FunctionCtor \<equiv> 2"
abbreviation ObjectCtor :: ref where "ObjectCtor \<equiv> 3"
abbreviation EventClass :: ref where "EventClass \<equiv> 4"
abbreviation EventPrototype :: ref where "EventPrototype \<equiv> 5"
abbreviation classA :: ref where "classA \<equiv> 6"
abbreviation protoA :: ref where "protoA \<equiv> 7"
abbreviation classB :: ref where "classB \<equiv> 8"
abbreviation protoB :: ref where "protoB \<equiv> 9"
abbreviation classC :: ref where "classC \<equiv> 10"
abbreviation protoC :: ref where "protoC \<equiv> 11"
abbreviation instA :: ref where "instA \<equiv> 12"
abbreviation instB :: ref where "instB \<equiv> 13"
abbreviation instC :: ref where "instC \<equiv> 14"
abbreviation fnH1 :: ref where "fnH1 \<equiv> 15"
abbreviation fnH2 :: ref where "fnH2 \<equiv> 16"
abbreviation pairArr :: ref where "pairArr \<equiv> 17"
abbreviation ArrayPrototype :: ref where "ArrayPrototype \<equiv> 18"
abbreviation fnLog :: ref where "fnLog \<equiv> 19"
abbreviation pairArrZ :: ref where "pairArrZ \<equiv> 20"
abbreviation cyclic :: ref where "cyclic \<equiv> 21"
abbreviation strLog :: ref where "strLog \<equiv> 22"
abbreviation StringPrototype :: ref where "StringPrototype \<equiv> 23"

definition heap0 :: heap where
  "heap0 r =
     (if r = ObjectPrototype then mkobj Plain None [(''constructor'', Obj ObjectCtor)]
      else if r = FunctionPrototype then mkobj Function (Some ObjectPrototype) [(''constructor'', Obj FunctionCtor)]
      else if r = FunctionCtor then mkobj Function (Some FunctionPrototype) [(''prototype'', Obj FunctionPrototype)]
      else if r = ObjectCtor then mkobj Function (Some FunctionPrototype) [(''prototype'', Obj ObjectPrototype)]
      else if r = EventClass then mkobj Function (Some FunctionPrototype)
                                    [(''prototype'', Obj EventPrototype), (''log'', Obj fnLog)]
      else if r = EventPrototype then mkobj Plain (Some ObjectPrototype) [(''constructor'', Obj EventClass)]
      else if r = classA then mkobj Function (Some FunctionPrototype) [(''prototype'', Obj protoA)]
      else if r = protoA then mkobj Plain (Some ObjectPrototype) [(''constructor'', Obj classA)]
      else if r = classB then mkobj Function (Some classA) [(''prototype'', Obj protoB)]
      else if r = protoB then mkobj Plain (Some protoA) [(''constructor'', Obj classB)]
      else if r = classC then mkobj Function (Some classB) [(''prototype'', Obj protoC)]
      else if r = protoC then mkobj Plain (Some protoB) [(''constructor'', Obj classC)]
      else if r = instA then mkobj Plain (Some protoA) []
      else if r = instB then mkobj Plain (Some protoB) []
      else if r = instC then mkobj Plain (Some protoC) []
      else if r = fnH1 then mkobj Function (Some FunctionPrototype) []
      else if r = fnH2 then mkobj Function (Some FunctionPrototype) []
      else if r = pairArr then mkobj Array (Some ArrayPrototype)
                                 [(''0'', Str ''A''), (''1'', Str ''log''), (''length'', Num 2)]
      else if r = ArrayPrototype then mkobj Array (Some ObjectPrototype) [(''length'', Num 0)]
      else if r = fnLog then mkobj Function (Some FunctionPrototype) []
      else if r = pairArrZ then mkobj Array (Some ArrayPrototype)
                                  [(''0'', Str ''Z''), (''1'', Str ''log''), (''length'', Num 2)]
      else if r = cyclic then mkobj Plain (Some ObjectPrototype) [(''self'', Obj cyclic)]
      else if r = strLog then mkobj StringObject (Some StringPrototype) [(''length'', Num 3)]
      else if r = StringPrototype then mkobj StringObject (Some ObjectPrototype) [(''length'', Num 0)]
      else mkobj Plain (Some ObjectPrototype) [])"

text \<open>
  \<open>fnH2\<close> sets \<open>event.handled = true\<close>; every other function leaves the event record
  as it is. \<open>Jii.namespace\<close> knows the three classes by their names and throws for
  any other value. \<open>JSON.stringify\<close> throws a \<open>TypeError\<close> for the circular object.
\<close>

definition rt0 :: runtime where
  "rt0 = \<lparr>namespace = (\<lambda>v. if v = Str ''A'' then Inr (Obj classA)
                           else if v = Str ''B'' then Inr (Obj classB)
                           else if v = Str ''C'' then Inr (Obj classC)
                           else Inl (Thrown (Str ''UnknownType''))),
          stringify = (\<lambda>h v. if v = Obj cyclic then Inl TypeError
                             else if v = Bool True then Inr ''true''
                             else Inr ''{}''),
          toKey = (\<lambda>h v. if v = Obj strLog then ''log'' else ''undefined''),
          primGet = (\<lambda>h v k. Undefined),
          primProto = (\<lambda>v. ObjectPrototype),
          call = (\<lambda>f this ev. if f = fnH2 then Inr (ev\<lparr>e_handled := True\<rparr>) else Inr ev)\<rparr>"

definition st0 :: state where
  "st0 = \<lparr>heap = heap0, events = Map.empty\<rparr>"

text \<open>The item that \<open>Event.on(c, name, f)\<close> stores for a class \<open>c\<close> and a function \<open>f\<close>.\<close>

definition itemOf :: "ref \<Rightarrow> ref \<Rightarrow> item" where
  "itemOf c f = \<lparr>item0 = Obj c, item1 = Some \<lparr>hcontext = Null, hcallback = Obj f\<rparr>, item2 = Null\<rparr>"

definition registry :: "item list \<Rightarrow> state" where
  "registry items = \<lparr>heap = heap0, events = [''e'' \<mapsto> items]\<rparr>"

subsection \<open>Notions used in the statements\<close>

text \<open>
  \<open>protoChain rt h v ps\<close>: the levels that the \<open>while (true)\<close> statements visit after \<open>v\<close>
  are exactly \<open>ps\<close>, the last of them having the prototype \<open>null\<close>.
\<close>

fun protoChain :: "runtime \<Rightarrow> heap \<Rightarrow> jsval \<Rightarrow> jsval list \<Rightarrow> bool" where
  "protoChain rt h v [] = (case getPrototypeOf rt h v of Inl e \<Rightarrow> False | Inr p \<Rightarrow> falsy p)"
| "protoChain rt h v (p # ps) = (getPrototypeOf rt h v = Inr p \<and> \<not> falsy p \<and> protoChain rt h p ps)"

text \<open>A call that returned and left \<open>event.handled\<close> false.\<close>

definition unhandled :: "invocation \<Rightarrow> bool" where
  "unhandled c = (case snd (snd c) of Inl e \<Rightarrow> False | Inr ev \<Rightarrow> \<not> e_handled ev)"

text \<open>The binding list of a name, empty when the name has none.\<close>

definition bindings :: "state \<Rightarrow> string \<Rightarrow> item list" where
  "bindings st name = (case events st name of None \<Rightarrow> [] | Some items \<Rightarrow> items)"

text \<open>The calls of a dispatch; none when \<open>trigger\<close> found no list.\<close>

fun calls :: "dispatch option \<Rightarrow> invocation list" where
  "calls None = []"
| "calls (Some (err, ev, cs)) = cs"

text \<open>
  The five accepted shapes of a handler, in the words of the specification: an object
  exposing both \<open>callback\<close> and \<open>context\<close>; a pair of a callable and an object; a pair
  of a type name and a method name, both strings; a bare method name; a bare callable.
\<close>

definition spec_acceptedShape :: "heap \<Rightarrow> jsval \<Rightarrow> bool" where
  "spec_acceptedShape h v =
     ((isObject v \<and> has h v ''callback'' \<and> has h v ''context'') \<or>
      (isArray h v \<and> arrayLength h v = Num 2 \<and>
         (case v of Obj a \<Rightarrow> isFunction h (own h a ''0'') \<and> isObject (own h a ''1'') | _ \<Rightarrow> False)) \<or>
      (isArray h v \<and> arrayLength h v = Num 2 \<and>
         (case v of Obj a \<Rightarrow> isString h (own h a ''0'') \<and> isString h (own h a ''1'') | _ \<Rightarrow> False)) \<or>
      isString h v \<or>
      isFunction h v)"

text \<open>
  The event record that \<open>trigger\<close>, called for the name \<open>name\<close> on an object \<open>x\<close> with the
  record \<open>event\<close> (or none), has prepared when the walk begins: \<open>handled\<close> reset, the
  name set, and \<open>x\<close> as the sender unless the record had one.
\<close>

definition prepared :: "string \<Rightarrow> jsval \<Rightarrow> event option \<Rightarrow> event" where
  "prepared name x event =
     (let ev = (case event of None \<Rightarrow> new_Event | Some e \<Rightarrow> e)\<lparr>e_handled := False, e_name := Str name\<rparr>
      in if e_sender ev = Null then ev\<lparr>e_sender := x\<rparr> else ev)"

section \<open>Properties\<close>

subsection \<open>The prototype chain\<close>

lemma protoChain_unique:
  "protoChain rt h v ps \<Longrightarrow> protoChain rt h v qs \<Longrightarrow> ps = qs"
proof (induction ps arbitrary: v qs)
  case Nil
  then show ?case by (cases qs) (auto split: sum.splits)
next
  case (Cons p ps)
  then show ?case by (cases qs) (auto split: sum.splits)
qed

lemma protoChain_member:
  "protoChain rt h v ps \<Longrightarrow> p \<in> set ps \<Longrightarrow> \<exists>qs. protoChain rt h p qs \<and> length qs < length ps"
proof (induction ps arbitrary: v)
  case Nil
  then show ?case by simp
next
  case (Cons q ps)
  show ?case
  proof (cases "p = q")
    case True
    with Cons.prems show ?thesis by auto
  next
    case False
    with Cons.prems have "p \<in> set ps" "protoChain rt h q ps" by auto
    with Cons.IH obtain qs where "protoChain rt h p qs" "length qs < length ps" by blast
    then show ?thesis by auto
  qed
qed

text \<open>A chain that reaches \<open>null\<close> never comes back to a level it has left.\<close>

lemma protoChain_not_self:
  assumes "protoChain rt h v ps" shows "v \<notin> set ps"
proof
  assume "v \<in> set ps"
  with assms obtain qs where q: "protoChain rt h v qs" "length qs < length ps"
    using protoChain_member by blast
  with assms have "qs = ps" using protoChain_unique by blast
  with q show False by simp
qed

lemma protoChain_distinct: "protoChain rt h v ps \<Longrightarrow> distinct (v # ps)"
proof (induction ps arbitrary: v)
  case Nil
  then show ?case by simp
next
  case (Cons p ps)
  from Cons.prems have "protoChain rt h p ps" by simp
  then have "distinct (p # ps)" by (rule Cons.IH)
  moreover have "v \<notin> set (p # ps)" using Cons.prems by (rule protoChain_not_self)
  ultimately show ?case by simp
qed

subsection \<open>One level of a dispatch\<close>

lemma forEachItem_filter:
  "forEachItem rt h cls items isH ev cs =
   forEachItem rt h cls (filter (\<lambda>i. item0 i = cls) items) isH ev cs"
  by (induction items arbitrary: isH ev cs) (auto split: sum.splits simp: Let_def)

lemma forEachItem_no_match:
  "\<forall>i \<in> set items. item0 i \<noteq> cls \<Longrightarrow> forEachItem rt h cls items isH ev cs = (None, isH, ev, cs)"
  by (induction items) auto

text \<open>
  As long as every call so far left \<open>handled\<close> false, a level adds calls of which only
  the last may have set it; and the level ends with \<open>isHandled\<close> false only if none did.
\<close>

lemma forEachItem_calls:
  assumes "forEachItem rt h cls items isH ev cs = (err, isH', ev', cs')"
    and "list_all unhandled (butlast cs)" and "\<not> isH \<longrightarrow> list_all unhandled cs"
  shows "list_all unhandled (butlast cs') \<and> (err = None \<and> \<not> isH' \<longrightarrow> list_all unhandled cs')"
  using assms
proof (induction items arbitrary: isH ev cs)
  case Nil
  then show ?case by auto
next
  case (Cons item items)
  show ?case
  proof (cases "isH \<or> item0 item \<noteq> cls")
    case True
    with Cons show ?thesis by auto
  next
    case False
    then have all: "list_all unhandled cs" using Cons.prems by simp
    let ?ev1 = "ev\<lparr>e_data := item2 item\<rparr>"
    show ?thesis
    proof (cases "callable h item")
      case nc: False
      with False Cons.prems show ?thesis by (auto simp: Let_def)
    next
      case c: True
      show ?thesis
      proof (cases "invoke rt h item ?ev1")
        case (Inl e)
        with c False Cons.prems all show ?thesis by (auto simp: Let_def)
      next
        case (Inr ev2)
        with c False Cons.prems
        have run: "forEachItem rt h cls items (e_handled ev2) ev2 (cs @ [(item, ?ev1, Inr ev2)])
                     = (err, isH', ev', cs')"
          by (simp add: Let_def)
        have one: "unhandled (item, ?ev1, Inr ev2) = (\<not> e_handled ev2)"
          by (simp add: unhandled_def)
        show ?thesis
          by (rule Cons.IH [OF run]) (use all one in simp_all)
      qed
    qed
  qed
qed

subsection \<open>The walk of \<open>trigger\<close>\<close>

lemma triggerLoop_calls:
  assumes ret: "triggerLoop rt h items cls ev cs = Some r"
  shows "list_all unhandled cs \<longrightarrow> list_all unhandled (butlast (snd (snd r)))"
proof (rule triggerLoop.raw_induct
    [where P = "\<lambda>rt h items cls ev cs r.
                  list_all unhandled cs \<longrightarrow> list_all unhandled (butlast (snd (snd r)))",
      OF _ ret], goal_cases)
  case (1 f rt h items cls ev cs r)
  show ?case
  proof
    assume all: "list_all unhandled cs"
    obtain err isH ev' cs' where f: "forEachItem rt h cls items False ev cs = (err, isH, ev', cs')"
      by (cases "forEachItem rt h cls items False ev cs") auto
    have bl: "list_all unhandled (butlast cs)" using all
      by (simp add: list_all_iff) (meson in_set_butlastD)
    from forEachItem_calls [OF f bl] all
    have inv: "list_all unhandled (butlast cs')" "err = None \<and> \<not> isH \<longrightarrow> list_all unhandled cs'"
      by auto
    show "list_all unhandled (butlast (snd (snd r)))"
      using 1(2) f inv 1(1)
      by (auto split: option.splits if_splits sum.splits)
  qed
qed

subsection \<open>Facts of the small world\<close>

lemma normalizeHandler_function:
  assumes "kind (h f) = Function"
    and "props (h f) ''callback'' = None \<or> props (h f) ''context'' = None"
  shows "normalizeHandler rt h this (Obj f) c =
           Some (Inr (Some \<lparr>hcontext = (if falsy c then Null else c), hcallback = Obj f\<rparr>), h)"
  using assms by (auto simp add: normalizeHandler_def)

lemma heap0_fnH1: "kind (heap0 fnH1) = Function" "props (heap0 fnH1) k = None"
  by (simp_all add: heap0_def mkobj_def)

lemma heap0_fnH2: "kind (heap0 fnH2) = Function" "props (heap0 fnH2) k = None"
  by (simp_all add: heap0_def mkobj_def)

lemma heap0_fnLog: "kind (heap0 fnLog) = Function" "props (heap0 fnLog) k = None"
  by (simp_all add: heap0_def mkobj_def)

lemma resolveCls_object: "kind (h r) \<noteq> StringObject \<Longrightarrow> resolveCls rt h (Obj r) = Inr (Obj r)"
  by (simp add: resolveCls_def)

lemma heap0_resolve:
  "resolveCls rt heap0 (Obj classA) = Inr (Obj classA)"
  "resolveCls rt heap0 (Obj classB) = Inr (Obj classB)"
  "resolveCls rt heap0 (Obj classC) = Inr (Obj classC)"
  "resolveCls rt heap0 (Obj instA) = Inr (Obj instA)"
  "resolveCls rt heap0 (Obj instB) = Inr (Obj instB)"
  "resolveCls rt heap0 (Obj instC) = Inr (Obj instC)"
  by (simp_all add: resolveCls_def heap0_def mkobj_def)

lemma on_A_h1:
  "on rt0 (Obj EventClass) st0 (Obj classA) ''e'' (Obj fnH1) Undefined Undefined
     = Some (Inr (), registry [itemOf classA fnH1])"
  by (simp add: on_def heap0_resolve st0_def registry_def itemOf_def normalizeHandler_function heap0_fnH1)

lemma heap0_constructor:
  "getProp heap0 classA ''constructor'' = Some (Obj FunctionCtor)"
  "getProp heap0 instA ''constructor'' = Some (Obj classA)"
  "getProp heap0 instB ''constructor'' = Some (Obj classB)"
  "getProp heap0 instC ''constructor'' = Some (Obj classC)"
  by (simp_all add: getProp.simps heap0_def mkobj_def)

subsection \<open>Detaching\<close>

text \<open>
  Whatever handler is given, the list that \<open>off\<close> leaves holds no item bound to the class.
\<close>

lemma offFilter_drops_class:
  "offFilter cls nh items = Inr kept \<Longrightarrow> i \<in> set kept \<Longrightarrow> item0 i \<noteq> cls"
  by (induction items arbitrary: kept) (auto split: sum.splits if_splits option.splits)

lemma off_drops_every_item_of_class:
  assumes "off rt this st cls name handler = Some (Inr b, st')" and "resolveCls rt (heap st) cls = Inr cls1"
  shows "\<forall>i \<in> set (bindings st' name). item0 i \<noteq> cls1"
  using assms
  by (auto simp: off_def Let_def bindings_def split: option.splits sum.splits)
     (blast dest: offFilter_drops_class)+

text \<open>
  C1. \<open>off\<close> is documented to remove the given handler and to tell whether one was
  found. After \<open>Event.on(A, 'e', h1)\<close>, the call \<open>Event.off(A, 'e', h2)\<close> with a
  function \<open>h2\<close> that was never attached returns \<open>true\<close> and leaves the list of \<open>'e'\<close>
  empty: the callback of \<open>filter\<close> drops every item of the class, whatever its callback.
\<close>

theorem off_detaches_unrelated_handler:
  "on rt0 (Obj EventClass) st0 (Obj classA) ''e'' (Obj fnH1) Undefined Undefined
     = Some (Inr (), registry [itemOf classA fnH1]) \<and>
   off rt0 (Obj EventClass) (registry [itemOf classA fnH1]) (Obj classA) ''e'' (Obj fnH2)
     = Some (Inr True, registry [])"
  by (simp add: on_A_h1)
     (simp add: off_def heap0_resolve registry_def itemOf_def normalizeHandler_function heap0_fnH2)

text \<open>
  It also drops the items of other classes whose callback is not the one given: with
  \<open>h1\<close> bound on \<open>A\<close> and \<open>h2\<close> on \<open>B\<close>, \<open>Event.off(A, 'e', h1)\<close> empties the list.
\<close>

lemma off_detaches_other_classes:
  "off rt0 (Obj EventClass) (registry [itemOf classA fnH1, itemOf classB fnH2]) (Obj classA) ''e'' (Obj fnH1)
     = Some (Inr True, registry [])"
  by (simp add: off_def heap0_resolve registry_def itemOf_def normalizeHandler_function heap0_fnH1)

subsection \<open>Triggering\<close>

text \<open>
  C2. Triggering on the bare class \<open>A\<close>, which has a binding for \<open>'e'\<close>, makes no call
  at all: a class is a function, lodash \<open>isObject\<close> holds of it, so the walk starts at
  \<open>A.constructor\<close>, which is \<open>Function\<close>, and never visits \<open>A\<close>; the class is also
  stored as the sender. Triggering on an instance of \<open>A\<close> calls the handler.
\<close>

theorem trigger_on_bare_class_calls_nothing:
  "trigger rt0 (registry [itemOf classA fnH1]) (Obj classA) ''e'' None
     = Some (Some (None, new_Event\<lparr>e_name := Str ''e'', e_sender := Obj classA\<rparr>, [])) \<and>
   trigger rt0 (registry [itemOf classA fnH1]) (Obj instA) ''e'' None
     = Some (Some (None, new_Event\<lparr>e_name := Str ''e'', e_sender := Obj instA\<rparr>,
          [(itemOf classA fnH1, new_Event\<lparr>e_name := Str ''e'', e_sender := Obj instA\<rparr>,
            Inr (new_Event\<lparr>e_name := Str ''e'', e_sender := Obj instA\<rparr>))]))"
  by (simp add: trigger_def heap0_resolve registry_def heap0_constructor new_Event_def)
     (simp add: triggerLoop.simps itemOf_def heap0_def mkobj_def rt0_def Let_def)

text \<open>\<open>hasHandlers\<close>, which starts at the class itself, finds the binding.\<close>

lemma hasHandlers_on_bare_class:
  "hasHandlers rt0 (registry [itemOf classA fnH1]) (Obj classA) ''e'' = Some (Inr True)"
  by (simp add: hasHandlers_def heap0_resolve registry_def hasHandlersLoop.simps itemOf_def)

text \<open>
  C3. In every dispatch that \<open>trigger\<close> performs, a call that returned with
  \<open>event.handled\<close> set (or that threw) is the last call: no handler runs after it, at
  the same level or at an ancestor's.
\<close>

theorem handled_stops_dispatch:
  assumes "trigger rt st cls name event = Some (Some (err, ev, cs))"
    and "i < length cs" and "\<not> unhandled (cs ! i)"
  shows "Suc i = length cs"
proof -
  from assms(1) obtain items cls2 ev2
    where "triggerLoop rt (heap st) items cls2 ev2 [] = Some (err, ev, cs) \<or> cs = []"
    by (auto simp: trigger_def Let_def split: option.splits sum.splits if_splits)
  with assms(2) have "triggerLoop rt (heap st) items cls2 ev2 [] = Some (err, ev, cs)" by auto
  from triggerLoop_calls [OF this] have all: "list_all unhandled (butlast cs)" by simp
  show ?thesis
  proof (rule ccontr)
    assume "Suc i \<noteq> length cs"
    with assms(2) have "i < length (butlast cs)" by simp
    with all have "unhandled (butlast cs ! i)" by (simp add: list_all_length)
    with \<open>i < length (butlast cs)\<close> assms(3) show False by (simp add: nth_butlast)
  qed
qed

text \<open>
  With bindings on \<open>A\<close> and on \<open>B\<close> (whose parent is \<open>A\<close>), the handler of \<open>B\<close> setting
  \<open>handled\<close>: triggering on an instance of \<open>B\<close> calls the handler of \<open>B\<close> and nothing
  else.
\<close>

theorem handled_stops_dispatch_witness:
  "trigger rt0 (registry [itemOf classA fnH1, itemOf classB fnH2]) (Obj instB) ''e'' None
     = Some (Some (None, new_Event\<lparr>e_name := Str ''e'', e_sender := Obj instB, e_handled := True\<rparr>,
          [(itemOf classB fnH2, new_Event\<lparr>e_name := Str ''e'', e_sender := Obj instB\<rparr>,
            Inr (new_Event\<lparr>e_name := Str ''e'', e_sender := Obj instB, e_handled := True\<rparr>))])) \<and>
   Suc 0 = length [(itemOf classB fnH2, new_Event\<lparr>e_name := Str ''e'', e_sender := Obj instB\<rparr>,
            Inr (new_Event\<lparr>e_name := Str ''e'', e_sender := Obj instB, e_handled := True\<rparr>))]"
proof -
  have run: "trigger rt0 (registry [itemOf classA fnH1, itemOf classB fnH2]) (Obj instB) ''e'' None
     = Some (Some (None, new_Event\<lparr>e_name := Str ''e'', e_sender := Obj instB, e_handled := True\<rparr>,
          [(itemOf classB fnH2, new_Event\<lparr>e_name := Str ''e'', e_sender := Obj instB\<rparr>,
            Inr (new_Event\<lparr>e_name := Str ''e'', e_sender := Obj instB, e_handled := True\<rparr>))]))"
    by (simp add: trigger_def heap0_resolve registry_def heap0_constructor new_Event_def)
       (simp add: triggerLoop.simps itemOf_def heap0_def mkobj_def rt0_def Let_def)
  from handled_stops_dispatch [OF run, of 0] show ?thesis
    using run by (simp add: unhandled_def)
qed

subsection \<open>Walks that reach \<open>null\<close>\<close>

text \<open>A level only appends calls, and only of items bound to that level.\<close>

lemma forEachItem_appends:
  "\<exists>err isH' ev' cs'. forEachItem rt h cls items isH ev cs = (err, isH', ev', cs @ cs') \<and>
      (\<forall>c \<in> set cs'. item0 (fst c) = cls)"
proof (induction items arbitrary: isH ev cs)
  case Nil
  then show ?case by simp
next
  case (Cons item items)
  show ?case
  proof (cases "isH \<or> item0 item \<noteq> cls")
    case True
    with Cons [of isH ev cs] show ?thesis by auto
  next
    case False
    let ?ev1 = "ev\<lparr>e_data := item2 item\<rparr>"
    show ?thesis
    proof (cases "callable h item")
      case nc: False
      with False show ?thesis by (auto simp: Let_def)
    next
      case c: True
      show ?thesis
      proof (cases "invoke rt h item ?ev1")
        case (Inl e)
        with c False show ?thesis by (auto simp: Let_def)
      next
        case (Inr ev2)
        from Cons [of "e_handled ev2" ev2 "cs @ [(item, ?ev1, Inr ev2)]"]
        obtain err isH' ev' cs' where
          "forEachItem rt h cls items (e_handled ev2) ev2 (cs @ [(item, ?ev1, Inr ev2)])
             = (err, isH', ev', (cs @ [(item, ?ev1, Inr ev2)]) @ cs')"
          "\<forall>c \<in> set cs'. item0 (fst c) = cls" by blast
        with c False Inr show ?thesis by (auto simp: Let_def)
      qed
    qed
  qed
qed

lemma forEachItem_first:
  assumes "find (\<lambda>i. item0 i = cls) items = Some item" and "callable h item"
  shows "\<exists>err isH' ev' cs'. forEachItem rt h cls items False ev cs =
           (err, isH', ev', cs @ (item, ev\<lparr>e_data := item2 item\<rparr>, invoke rt h item (ev\<lparr>e_data := item2 item\<rparr>)) # cs')"
  using assms
proof (induction items)
  case Nil
  then show ?case by simp
next
  case (Cons i items)
  show ?case
  proof (cases "item0 i = cls")
    case False
    with Cons show ?thesis by auto
  next
    case True
    with Cons.prems have eq: "i = item" by simp
    let ?ev1 = "ev\<lparr>e_data := item2 item\<rparr>"
    show ?thesis
    proof (cases "invoke rt h item ?ev1")
      case (Inl e)
      with True eq Cons.prems(2) show ?thesis by (auto simp: Let_def)
    next
      case (Inr ev2)
      from forEachItem_appends [of rt h cls items "e_handled ev2" ev2 "cs @ [(item, ?ev1, Inr ev2)]"]
      obtain err isH' ev' cs' where
        "forEachItem rt h cls items (e_handled ev2) ev2 (cs @ [(item, ?ev1, Inr ev2)])
           = (err, isH', ev', (cs @ [(item, ?ev1, Inr ev2)]) @ cs')" by blast
      with True eq Cons.prems(2) Inr show ?thesis by (auto simp: Let_def)
    qed
  qed
qed

text \<open>
  When the chain above the starting level reaches \<open>null\<close>, the walk of \<open>trigger\<close>
  returns, and the calls it adds are of items bound to the levels of the chain.
\<close>

lemma triggerLoop_total:
  "protoChain rt h v ps \<Longrightarrow>
   \<exists>err ev' cs'. triggerLoop rt h items v ev cs = Some (err, ev', cs @ cs') \<and>
      (\<forall>c \<in> set cs'. item0 (fst c) \<in> set (v # ps))"
proof (induction ps arbitrary: v ev cs)
  case Nil
  from forEachItem_appends [of rt h v items False ev cs]
  obtain err isH' ev' cs' where f: "forEachItem rt h v items False ev cs = (err, isH', ev', cs @ cs')"
      "\<forall>c \<in> set cs'. item0 (fst c) = v" by blast
  with Nil show ?case
    by (subst triggerLoop.simps) (auto split: option.splits sum.splits)
next
  case (Cons p ps)
  from forEachItem_appends [of rt h v items False ev cs]
  obtain err isH' ev' cs' where f: "forEachItem rt h v items False ev cs = (err, isH', ev', cs @ cs')"
      "\<forall>c \<in> set cs'. item0 (fst c) = v" by blast
  from Cons.prems have p: "getPrototypeOf rt h v = Inr p" "\<not> falsy p" "protoChain rt h p ps" by auto
  from Cons.IH [OF p(3), of ev' "cs @ cs'"]
  obtain err2 ev2 cs2 where r: "triggerLoop rt h items p ev' (cs @ cs') = Some (err2, ev2, (cs @ cs') @ cs2)"
      "\<forall>c \<in> set cs2. item0 (fst c) \<in> set (p # ps)" by blast
  show ?case
  proof (cases "err = None \<and> \<not> isH'")
    case True
    with f p r have "triggerLoop rt h items v ev cs = Some (err2, ev2, cs @ (cs' @ cs2))"
      by (subst triggerLoop.simps) simp
    moreover have "\<forall>c \<in> set (cs' @ cs2). item0 (fst c) \<in> set (v # p # ps)"
      using f(2) r(2) by auto
    ultimately show ?thesis by blast
  next
    case False
    with f p have "\<exists>e. triggerLoop rt h items v ev cs = Some (e, ev', cs @ cs')"
      by (subst triggerLoop.simps) (auto split: option.splits)
    with f(2) show ?thesis by auto
  qed
qed

lemma triggerLoop_no_match:
  assumes "protoChain rt h v ps" and "\<forall>i \<in> set items. item0 i \<notin> set (v # ps)"
  shows "triggerLoop rt h items v ev cs = Some (None, ev, cs)"
  using assms
proof (induction ps arbitrary: v)
  case Nil
  then have "forEachItem rt h v items False ev cs = (None, False, ev, cs)"
    by (intro forEachItem_no_match) auto
  with Nil show ?case by (subst triggerLoop.simps) (auto split: sum.splits)
next
  case (Cons p ps)
  then have "forEachItem rt h v items False ev cs = (None, False, ev, cs)"
    by (intro forEachItem_no_match) auto
  moreover from Cons have "triggerLoop rt h items p ev cs = Some (None, ev, cs)" by auto
  ultimately show ?case using Cons.prems by (subst triggerLoop.simps) auto
qed

text \<open>What \<open>item[1].callback.call(item[1].context, event)\<close> is for a function \<open>f\<close>.\<close>

lemma invoke_function:
  assumes "item1 item = Some nh" and "hcallback nh = Obj f" and "kind (h f) = Function"
  shows "invoke rt h item ev = call rt f (hcontext nh) ev" and "callable h item"
  using assms by simp_all

lemma forEachItem_single:
  assumes "filter (\<lambda>i. item0 i = cls) items = [item]"
    and "item1 item = Some nh" and "hcallback nh = Obj f" and "kind (h f) = Function"
  shows "forEachItem rt h cls items False ev cs =
     (case call rt f (hcontext nh) (ev\<lparr>e_data := item2 item\<rparr>) of
        Inl e \<Rightarrow> (Some e, False, ev\<lparr>e_data := item2 item\<rparr>,
                  cs @ [(item, ev\<lparr>e_data := item2 item\<rparr>, Inl e)])
      | Inr ev2 \<Rightarrow> (None, e_handled ev2, ev2, cs @ [(item, ev\<lparr>e_data := item2 item\<rparr>, Inr ev2)]))"
proof -
  from assms(1) have "item \<in> set (filter (\<lambda>i. item0 i = cls) items)" by simp
  then have "item0 item = cls" by simp
  with assms show ?thesis
    by (subst forEachItem_filter) (simp add: Let_def split: sum.splits)
qed

text \<open>
  On an object \<open>x\<close> that is not a \<open>String\<close> object the walk starts at \<open>x.constructor\<close>, with
  the prepared record.
\<close>

lemma trigger_instance:
  assumes "events st e = Some items" and "kind (heap st x) \<noteq> StringObject"
    and "getProp (heap st) x ''constructor'' = Some c"
  shows "trigger rt st (Obj x) e evt
           = map_option Some (triggerLoop rt (heap st) items c (prepared e (Obj x) evt) [])"
  using assms by (simp add: trigger_def prepared_def Let_def resolveCls_def)

text \<open>
  When the chain above \<open>x.constructor\<close> reaches \<open>null\<close>, \<open>trigger\<close> returns and only calls
  items bound to that value or to a level above it.
\<close>

lemma trigger_walks_from_constructor:
  assumes x: "kind (heap st x) \<noteq> StringObject"
    and ctor: "getProp (heap st) x ''constructor'' = Some c"
    and chain: "protoChain rt (heap st) c ps"
  shows "\<exists>r. trigger rt st (Obj x) e evt = Some r \<and> (\<forall>i \<in> set (calls r). item0 (fst i) \<in> set (c # ps))"
proof (cases "events st e")
  case None
  then show ?thesis by (simp add: trigger_def)
next
  case (Some items)
  from triggerLoop_total [OF chain, of items "prepared e (Obj x) evt" "[]"] obtain err ev' cs' where
    "triggerLoop rt (heap st) items c (prepared e (Obj x) evt) [] = Some (err, ev', cs')"
    "\<forall>i \<in> set cs'. item0 (fst i) \<in> set (c # ps)" by auto
  with trigger_instance [OF Some x ctor, of rt evt] show ?thesis by simp
qed

text \<open>
  The walk of \<open>hasHandlers\<close> from a value whose chain reaches \<open>null\<close> returns, and tells
  whether some item is bound to the value or to a level above it.
\<close>

lemma hasHandlersLoop_chain:
  "protoChain rt h v ps \<Longrightarrow>
   hasHandlersLoop rt h items v = Some (Inr (\<exists>i \<in> set items. item0 i \<in> set (v # ps)))"
proof (induction ps arbitrary: v)
  case Nil
  have "(find (\<lambda>item. item0 item = v) items \<noteq> None) = (\<exists>i \<in> set items. item0 i = v)"
    by (auto simp: find_None_iff)
  with Nil show ?case by (subst hasHandlersLoop.simps) (auto split: sum.splits)
next
  case (Cons p ps)
  have f: "(find (\<lambda>item. item0 item = v) items \<noteq> None) = (\<exists>i \<in> set items. item0 i = v)"
    by (auto simp: find_None_iff)
  from Cons have "hasHandlersLoop rt h items p = Some (Inr (\<exists>i \<in> set items. item0 i \<in> set (p # ps)))"
    by auto
  with f Cons.prems show ?case by (subst hasHandlersLoop.simps) auto
qed

subsection \<open>The hierarchy\<close>

text \<open>
  C4. Let \<open>B\<close> have the parent \<open>A\<close> and \<open>C\<close> the parent \<open>B\<close>, the chain above \<open>A\<close>
  reaching \<open>null\<close>, and let \<open>xA\<close>, \<open>xB\<close>, \<open>xC\<close> be instances of the three classes.
  If the list of \<open>e\<close> holds one item bound to \<open>A\<close>, whose callback is the function \<open>f\<close>, and
  no other item bound to a level of the chain, then triggering \<open>e\<close> on \<open>xC\<close> makes exactly
  one call: \<open>f\<close> is called with the context of the item as receiver and the prepared
  event record, carrying the data of the item, as argument; the dispatch ends with what
  \<open>f\<close> did. Whatever the registry holds, triggering on \<open>xA\<close> or on \<open>xB\<close> returns and
  calls no item bound to \<open>C\<close>.
\<close>

theorem hierarchy_fan_out:
  assumes chain: "protoChain rt h (Obj C) (Obj B # Obj A # ps)"
    and xA: "kind (h xA) \<noteq> StringObject" "getProp h xA ''constructor'' = Some (Obj A)"
    and xB: "kind (h xB) \<noteq> StringObject" "getProp h xB ''constructor'' = Some (Obj B)"
    and xC: "kind (h xC) \<noteq> StringObject" "getProp h xC ''constructor'' = Some (Obj C)"
    and item: "item0 item = Obj A" "item1 item = Some nh" "hcallback nh = Obj f"
      "kind (h f) = Function"
    and only: "filter (\<lambda>i. item0 i \<in> set (Obj C # Obj B # Obj A # ps)) items = [item]"
  shows "(let ev1 = (prepared e (Obj xC) evt)\<lparr>e_data := item2 item\<rparr> in
          trigger rt \<lparr>heap = h, events = evs(e \<mapsto> items)\<rparr> (Obj xC) e evt
             = Some (Some (case call rt f (hcontext nh) ev1 of
                             Inl err \<Rightarrow> (Some err, ev1, [(item, ev1, Inl err)])
                           | Inr ev2 \<Rightarrow> (None, ev2, [(item, ev1, Inr ev2)])))) \<and>
         (\<exists>r. trigger rt \<lparr>heap = h, events = evs'\<rparr> (Obj xA) e' evt' = Some r \<and>
              (\<forall>c \<in> set (calls r). item0 (fst c) \<noteq> Obj C)) \<and>
         (\<exists>r. trigger rt \<lparr>heap = h, events = evs'\<rparr> (Obj xB) e' evt' = Some r \<and>
              (\<forall>c \<in> set (calls r). item0 (fst c) \<noteq> Obj C))"
proof (intro conjI)
  from chain have chA: "protoChain rt h (Obj A) ps"
    and pC: "getPrototypeOf rt h (Obj C) = Inr (Obj B)" and pB: "getPrototypeOf rt h (Obj B) = Inr (Obj A)"
    by auto
  from protoChain_distinct [OF chain] have d: "distinct (Obj C # Obj B # Obj A # ps)" .
  have lvl: "filter (\<lambda>i. item0 i = v) items = filter (\<lambda>i. item0 i = v) [item]"
    if "v \<in> set (Obj C # Obj B # Obj A # ps)" for v
  proof -
    have "filter (\<lambda>i. item0 i = v) items
            = filter (\<lambda>i. item0 i = v) (filter (\<lambda>i. item0 i \<in> set (Obj C # Obj B # Obj A # ps)) items)"
      using that by (auto intro: filter_cong)
    with only show ?thesis by simp
  qed
  have none: "\<forall>i \<in> set items. item0 i \<noteq> v" if "v \<in> set (Obj C # Obj B # ps)" for v
  proof -
    from that d have "v \<noteq> Obj A" by auto
    moreover from that have "v \<in> set (Obj C # Obj B # Obj A # ps)" by auto
    ultimately have "filter (\<lambda>i. item0 i = v) items = []" using lvl [of v] item(1) by auto
    then show ?thesis by (auto simp: filter_empty_conv)
  qed
  have atA: "filter (\<lambda>i. item0 i = Obj A) items = [item]" using lvl [of "Obj A"] item(1) by simp
  note single = forEachItem_single [where h = h and f = f, OF atA item(2) item(3) item(4)]
  have above: "triggerLoop rt h items p ev cs = Some (None, ev, cs)"
    if "ps = p # qs" for p qs ev cs
  proof (rule triggerLoop_no_match)
    from chA that show "protoChain rt h p qs" by simp
    from none that show "\<forall>i \<in> set items. item0 i \<notin> set (p # qs)" by auto
  qed
  have walkA: "triggerLoop rt h items (Obj A) ev [] =
      Some (case call rt f (hcontext nh) (ev\<lparr>e_data := item2 item\<rparr>) of
              Inl err \<Rightarrow> (Some err, ev\<lparr>e_data := item2 item\<rparr>, [(item, ev\<lparr>e_data := item2 item\<rparr>, Inl err)])
            | Inr ev2 \<Rightarrow> (None, ev2, [(item, ev\<lparr>e_data := item2 item\<rparr>, Inr ev2)]))"
    for ev
  proof (cases "call rt f (hcontext nh) (ev\<lparr>e_data := item2 item\<rparr>)")
    case (Inl e)
    then show ?thesis
      by (subst triggerLoop.simps) (simp add: single)
  next
    case (Inr ev2)
    show ?thesis
    proof (cases ps)
      case Nil
      with chA Inr show ?thesis
        by (subst triggerLoop.simps) (auto simp add: single split: sum.splits)
    next
      case (Cons p qs)
      with chA have "getPrototypeOf rt h (Obj A) = Inr p" "\<not> falsy p" by auto
      with Inr above [OF Cons] show ?thesis
        by (subst triggerLoop.simps) (simp add: single)
    qed
  qed
  have walkC: "triggerLoop rt h items (Obj C) ev [] = triggerLoop rt h items (Obj A) ev []" for ev
  proof -
    have "forEachItem rt h (Obj C) items False ev [] = (None, False, ev, [])"
      by (rule forEachItem_no_match) (use none in auto)
    moreover have "forEachItem rt h (Obj B) items False ev [] = (None, False, ev, [])"
      by (rule forEachItem_no_match) (use none in auto)
    ultimately show ?thesis using pC pB
      by (subst triggerLoop.simps, simp, subst triggerLoop.simps, simp)
  qed
  have "trigger rt \<lparr>heap = h, events = evs(e \<mapsto> items)\<rparr> (Obj xC) e evt
          = map_option Some (triggerLoop rt h items (Obj C) (prepared e (Obj xC) evt) [])"
    using trigger_instance [of "\<lparr>heap = h, events = evs(e \<mapsto> items)\<rparr>" e items xC "Obj C" rt evt] xC
    by simp
  then show "let ev1 = (prepared e (Obj xC) evt)\<lparr>e_data := item2 item\<rparr> in
          trigger rt \<lparr>heap = h, events = evs(e \<mapsto> items)\<rparr> (Obj xC) e evt
             = Some (Some (case call rt f (hcontext nh) ev1 of
                             Inl err \<Rightarrow> (Some err, ev1, [(item, ev1, Inl err)])
                           | Inr ev2 \<Rightarrow> (None, ev2, [(item, ev1, Inr ev2)])))"
    by (simp add: walkC walkA Let_def)
next
  from chain have chB: "protoChain rt h (Obj B) (Obj A # ps)" and chA: "protoChain rt h (Obj A) ps"
    by auto
  from protoChain_distinct [OF chain] have d: "distinct (Obj C # Obj B # Obj A # ps)" .
  have "\<exists>r. trigger rt \<lparr>heap = h, events = evs'\<rparr> (Obj xA) e' evt' = Some r \<and>
            (\<forall>i \<in> set (calls r). item0 (fst i) \<in> set (Obj A # ps))"
    using trigger_walks_from_constructor [of "\<lparr>heap = h, events = evs'\<rparr>" xA "Obj A" rt ps e' evt'] xA chA
    by simp
  with d show "\<exists>r. trigger rt \<lparr>heap = h, events = evs'\<rparr> (Obj xA) e' evt' = Some r \<and>
              (\<forall>c \<in> set (calls r). item0 (fst c) \<noteq> Obj C)"
    by fastforce
  have "\<exists>r. trigger rt \<lparr>heap = h, events = evs'\<rparr> (Obj xB) e' evt' = Some r \<and>
            (\<forall>i \<in> set (calls r). item0 (fst i) \<in> set (Obj B # Obj A # ps))"
    using trigger_walks_from_constructor [of "\<lparr>heap = h, events = evs'\<rparr>" xB "Obj B" rt "Obj A # ps" e' evt'] xB chB
    by simp
  with d show "\<exists>r. trigger rt \<lparr>heap = h, events = evs'\<rparr> (Obj xB) e' evt' = Some r \<and>
              (\<forall>c \<in> set (calls r). item0 (fst c) \<noteq> Obj C)"
    by fastforce
qed

lemma heap0_chains:
  "protoChain rt0 heap0 (Obj classC) [Obj classB, Obj classA, Obj FunctionPrototype, Obj ObjectPrototype]"
  "protoChain rt0 heap0 (Obj instC) [Obj protoC, Obj protoB, Obj protoA, Obj ObjectPrototype]"
  by (simp_all add: heap0_def mkobj_def)

lemma heap0_instances:
  "kind (heap0 instA) \<noteq> StringObject" "kind (heap0 instB) \<noteq> StringObject"
  "kind (heap0 instC) \<noteq> StringObject"
  by (simp_all add: heap0_def mkobj_def)

lemma itemOf_sel:
  "item0 (itemOf c f) = Obj c" "item1 (itemOf c f) = Some \<lparr>hcontext = Null, hcallback = Obj f\<rparr>"
  "item2 (itemOf c f) = Null"
  by (simp_all add: itemOf_def)

text \<open>
  The three classes of the small world. With \<open>h2\<close>, which sets \<open>handled\<close>, bound on \<open>A\<close>,
  triggering on the instance of \<open>C\<close> calls \<open>h2\<close> once, with the receiver \<open>null\<close> and the
  record whose name is \<open>'e'\<close> and whose sender is the instance, and ends with \<open>handled\<close>
  set. With one binding on \<open>C\<close>, triggering on the instances of \<open>A\<close> and \<open>B\<close> calls
  nothing bound to \<open>C\<close>.
\<close>

theorem hierarchy_fan_out_witness:
  "protoChain rt0 heap0 (Obj classC) [Obj classB, Obj classA, Obj FunctionPrototype, Obj ObjectPrototype] \<and>
   trigger rt0 (registry [itemOf classA fnH2]) (Obj instC) ''e'' None
       = Some (Some (None, new_Event\<lparr>e_name := Str ''e'', e_sender := Obj instC, e_handled := True\<rparr>,
            [(itemOf classA fnH2, new_Event\<lparr>e_name := Str ''e'', e_sender := Obj instC\<rparr>,
              Inr (new_Event\<lparr>e_name := Str ''e'', e_sender := Obj instC, e_handled := True\<rparr>))])) \<and>
   (\<exists>r. trigger rt0 (registry [itemOf classC fnH1]) (Obj instA) ''e'' None = Some r \<and>
        (\<forall>c \<in> set (calls r). item0 (fst c) \<noteq> Obj classC)) \<and>
   (\<exists>r. trigger rt0 (registry [itemOf classC fnH1]) (Obj instB) ''e'' None = Some r \<and>
        (\<forall>c \<in> set (calls r). item0 (fst c) \<noteq> Obj classC))"
proof -
  have only: "filter (\<lambda>i. item0 i \<in> set [Obj classC, Obj classB, Obj classA,
                  Obj FunctionPrototype, Obj ObjectPrototype]) [itemOf classA fnH2]
                = [itemOf classA fnH2]"
    by (simp add: itemOf_def)
  have r1: "\<lparr>heap = heap0, events = Map.empty(''e'' \<mapsto> [itemOf classA fnH2])\<rparr>
              = registry [itemOf classA fnH2]"
    and r2: "\<lparr>heap = heap0, events = [''e'' \<mapsto> [itemOf classC fnH1]]\<rparr>
              = registry [itemOf classC fnH1]"
    by (simp_all add: registry_def)
  have p: "(prepared ''e'' (Obj instC) None)\<lparr>e_data := item2 (itemOf classA fnH2)\<rparr>
             = new_Event\<lparr>e_name := Str ''e'', e_sender := Obj instC\<rparr>"
    by (simp add: prepared_def new_Event_def itemOf_def)
  have c: "call rt0 fnH2 Null ev = Inr (ev\<lparr>e_handled := True\<rparr>)" for ev
    by (simp add: rt0_def)
  have cb: "hcallback \<lparr>hcontext = Null, hcallback = Obj fnH2\<rparr> = Obj fnH2" by simp
  from hierarchy_fan_out [where h = heap0 and f = fnH2 and evs = Map.empty and e = "''e''"
      and evt = None and evs' = "[''e'' \<mapsto> [itemOf classC fnH1]]" and e' = "''e''" and evt' = None,
      OF heap0_chains(1) heap0_instances(1) heap0_constructor(2)
      heap0_instances(2) heap0_constructor(3) heap0_instances(3) heap0_constructor(4)
      itemOf_sel(1) itemOf_sel(2) cb heap0_fnH2(1) only]
  show ?thesis
    unfolding r1 r2 using heap0_chains(1) by (simp add: p c Let_def new_Event_def)
qed

subsection \<open>\<open>hasHandlers\<close> on an instance\<close>

text \<open>
  C9 as the code has it. \<open>hasHandlers\<close> walks from the value it is given: for an object \<open>x\<close>
  (not a \<open>String\<close> object) whose prototype chain reaches \<open>null\<close>, it returns \<open>true\<close> exactly
  when some item of the list is bound to \<open>x\<close> itself or to an object of that chain; the
  class \<open>x.constructor\<close> is not looked at. \<open>trigger\<close> starts at \<open>x.constructor\<close>: with \<open>C\<close>
  for it, and the function \<open>f\<close> the callback of the first item bound to \<open>C\<close>, the first call
  of the dispatch is \<open>f\<close>, called with the context of that item as receiver and the
  prepared event record, carrying the data of the item, as argument.
\<close>

theorem hasHandlers_compares_prototype_chain:
  assumes x: "kind (heap st x) \<noteq> StringObject"
    and own: "protoChain rt (heap st) (Obj x) ps"
    and list: "events st e = Some items"
    and ctor: "getProp (heap st) x ''constructor'' = Some (Obj C)"
    and cls: "protoChain rt (heap st) (Obj C) qs"
    and item: "find (\<lambda>i. item0 i = Obj C) items = Some item" "item1 item = Some nh"
      "hcallback nh = Obj f" "kind (heap st f) = Function"
  shows "hasHandlers rt st (Obj x) e = Some (Inr (\<exists>i \<in> set items. item0 i \<in> set (Obj x # ps))) \<and>
         (let ev1 = (prepared e (Obj x) evt)\<lparr>e_data := item2 item\<rparr> in
          \<exists>err ev cs. trigger rt st (Obj x) e evt
             = Some (Some (err, ev, (item, ev1, call rt f (hcontext nh) ev1) # cs)))"
proof
  show "hasHandlers rt st (Obj x) e = Some (Inr (\<exists>i \<in> set items. item0 i \<in> set (Obj x # ps)))"
    using hasHandlersLoop_chain [OF own, of items] list x
    by (simp add: hasHandlers_def resolveCls_def)
next
  let ?ev0 = "prepared e (Obj x) evt"
  let ?ev1 = "?ev0\<lparr>e_data := item2 item\<rparr>"
  let ?c = "(item, ?ev1, call rt f (hcontext nh) ?ev1)"
  note fn = invoke_function [where h = "heap st" and f = f, OF item(2) item(3) item(4)]
  from forEachItem_first [OF item(1) fn(2), of rt ?ev0 "[]"] fn(1) [of rt ?ev1]
  obtain err isH ev' cs' where f:
    "forEachItem rt (heap st) (Obj C) items False ?ev0 [] = (err, isH, ev', ?c # cs')" by auto
  have "\<exists>err2 ev2 cs2. triggerLoop rt (heap st) items (Obj C) ?ev0 [] = Some (err2, ev2, ?c # cs2)"
  proof (cases qs)
    case Nil
    with cls f show ?thesis
      by (subst triggerLoop.simps) (auto split: option.splits sum.splits)
  next
    case (Cons p qs')
    with cls have p: "getPrototypeOf rt (heap st) (Obj C) = Inr p" "\<not> falsy p"
      "protoChain rt (heap st) p qs'" by auto
    from triggerLoop_total [OF p(3), of items ev' "?c # cs'"]
    obtain err2 ev2 cs2 where
      "triggerLoop rt (heap st) items p ev' (?c # cs') = Some (err2, ev2, (?c # cs') @ cs2)" by blast
    with f p show ?thesis
      by (subst triggerLoop.simps) (auto split: option.splits)
  qed
  with trigger_instance [OF list x ctor, of rt evt]
  show "let ev1 = (prepared e (Obj x) evt)\<lparr>e_data := item2 item\<rparr> in
          \<exists>err ev cs. trigger rt st (Obj x) e evt
             = Some (Some (err, ev, (item, ev1, call rt f (hcontext nh) ev1) # cs))"
    by (auto simp: Let_def)
qed

text \<open>
  An instance of \<open>C\<close>, with \<open>h1\<close> bound on \<open>C\<close> and on \<open>C.prototype\<close>: \<open>hasHandlers\<close> on the
  instance returns \<open>true\<close>.
\<close>

theorem hasHandlers_on_instance_counterexample:
  "getProp heap0 instC ''constructor'' = Some (Obj classC) \<and>
   events (registry [itemOf classC fnH1, itemOf protoC fnH1]) ''e''
     = Some [itemOf classC fnH1, itemOf protoC fnH1] \<and>
   hasHandlers rt0 (registry [itemOf classC fnH1, itemOf protoC fnH1]) (Obj instC) ''e''
     = Some (Inr True)"
  by (simp add: heap0_constructor)
     (simp add: hasHandlers_def heap0_resolve registry_def hasHandlersLoop.simps itemOf_def
        heap0_def mkobj_def)

text \<open>
  The same instance with \<open>h2\<close>, which sets \<open>handled\<close>, bound on \<open>C\<close> only: \<open>hasHandlers\<close>
  returns \<open>false\<close>, and \<open>trigger\<close> calls \<open>h2\<close> with the receiver \<open>null\<close> and the record whose
  name is \<open>'e'\<close> and whose sender is the instance.
\<close>

theorem hasHandlers_compares_prototype_chain_witness:
  "protoChain rt0 heap0 (Obj instC) [Obj protoC, Obj protoB, Obj protoA, Obj ObjectPrototype] \<and>
   getProp heap0 instC ''constructor'' = Some (Obj classC) \<and>
   hasHandlers rt0 (registry [itemOf classC fnH2]) (Obj instC) ''e'' = Some (Inr False) \<and>
   (\<exists>err ev cs. trigger rt0 (registry [itemOf classC fnH2]) (Obj instC) ''e'' None
       = Some (Some (err, ev,
           (itemOf classC fnH2, new_Event\<lparr>e_name := Str ''e'', e_sender := Obj instC\<rparr>,
            Inr (new_Event\<lparr>e_name := Str ''e'', e_sender := Obj instC, e_handled := True\<rparr>)) # cs)))"
proof -
  let ?st = "registry [itemOf classC fnH2]"
  have h: "heap ?st = heap0" and l: "events ?st ''e'' = Some [itemOf classC fnH2]"
    by (simp_all add: registry_def)
  have x: "kind (heap ?st instC) \<noteq> StringObject"
    and own: "protoChain rt0 (heap ?st) (Obj instC) [Obj protoC, Obj protoB, Obj protoA, Obj ObjectPrototype]"
    and cls: "protoChain rt0 (heap ?st) (Obj classC) [Obj classB, Obj classA, Obj FunctionPrototype, Obj ObjectPrototype]"
    and ctor: "getProp (heap ?st) instC ''constructor'' = Some (Obj classC)"
    and fn: "kind (heap ?st fnH2) = Function"
    unfolding h by (rule heap0_instances heap0_chains heap0_constructor heap0_fnH2)+
  have first: "find (\<lambda>i. item0 i = Obj classC) [itemOf classC fnH2] = Some (itemOf classC fnH2)"
    by (simp add: itemOf_def)
  have cb: "hcallback \<lparr>hcontext = Null, hcallback = Obj fnH2\<rparr> = Obj fnH2" by simp
  have p: "(prepared ''e'' (Obj instC) None)\<lparr>e_data := item2 (itemOf classC fnH2)\<rparr>
             = new_Event\<lparr>e_name := Str ''e'', e_sender := Obj instC\<rparr>"
    by (simp add: prepared_def new_Event_def itemOf_def)
  have c: "call rt0 fnH2 Null (new_Event\<lparr>e_name := Str ''e'', e_sender := Obj instC\<rparr>)
             = Inr (new_Event\<lparr>e_name := Str ''e'', e_sender := Obj instC, e_handled := True\<rparr>)"
    by (simp add: rt0_def)
  have none: "(\<exists>i \<in> set [itemOf classC fnH2].
      item0 i \<in> set (Obj instC # [Obj protoC, Obj protoB, Obj protoA, Obj ObjectPrototype])) = False"
    by (simp add: itemOf_def)
  from hasHandlers_compares_prototype_chain [where f = fnH2 and evt = None,
      OF x own l ctor cls first itemOf_sel(2) cb fn]
  show ?thesis
    unfolding h none p using heap0_chains(2) heap0_constructor(4) by (simp add: Let_def c)
qed

subsection \<open>Attaching\<close>

text \<open>
  C6. In append mode (\<open>isAppend\<close> omitted or truthy), whenever \<open>on\<close> returns: if the list
  of the name already holds an item bound to the resolved class, the registry is left
  as it was, so the handler given is ignored; and a list with at most one item per bound
  class still has at most one per bound class afterwards.
\<close>

theorem on_append_no_duplicate:
  assumes ret: "on rt this st cls name handler data isAppend = Some (out, st')"
    and mode: "isAppend = Undefined \<or> truthy isAppend"
    and cls: "resolveCls rt (heap st) cls = Inr cls1"
  shows "((\<exists>i \<in> set (bindings st name). item0 i = cls1) \<longrightarrow> events st' = events st) \<and>
         (distinct (map item0 (bindings st name)) \<longrightarrow> distinct (map item0 (bindings st' name)))"
proof -
  from mode have app: "truthy (if isAppend = Undefined then Bool True else isAppend)" by auto
  show ?thesis
  proof (cases "normalizeHandler rt (heap st) this handler Undefined")
    case None
    with ret cls show ?thesis by (simp add: on_def heap0_resolve Let_def)
  next
    case (Some r)
    obtain res h' where r: "r = (res, h')" by (cases r)
    show ?thesis
    proof (cases res)
      case (Inl e)
      with ret cls Some r show ?thesis by (auto simp: on_def Let_def bindings_def)
    next
      case (Inr nh)
      define items where "items = bindings st name"
      let ?new = "\<lparr>item0 = cls1, item1 = nh, item2 = (if falsy data then Null else data)\<rparr>"
      let ?items' = "if find (\<lambda>item. item0 item = cls1) items = None then items @ [?new] else items"
      have ev: "events st' = (events st)(name \<mapsto> ?items')"
        using ret cls Some r Inr app by (auto simp: on_def Let_def bindings_def items_def)
      then have after: "bindings st' name = ?items'"
        by (simp add: bindings_def [of st'])
      have found: "find (\<lambda>item. item0 item = cls1) items \<noteq> None \<longleftrightarrow> (\<exists>i \<in> set items. item0 i = cls1)"
        by (auto simp: find_None_iff)
      have "events st' = events st" if ex: "\<exists>i \<in> set items. item0 i = cls1"
      proof -
        from ex found have f: "find (\<lambda>item. item0 item = cls1) items \<noteq> None" by simp
        from ex have "events st name = Some items"
          by (cases "events st name") (auto simp: bindings_def items_def)
        with ev f show ?thesis by (auto simp: fun_upd_idem_iff)
      qed
      moreover have "distinct (map item0 (bindings st' name))" if d: "distinct (map item0 items)"
      proof (cases "find (\<lambda>item. item0 item = cls1) items = None")
        case True
        then have "cls1 \<notin> item0 ` set items" by (auto simp: find_None_iff)
        with after True d show ?thesis by simp
      next
        case False
        with after d show ?thesis by simp
      qed
      ultimately show ?thesis unfolding items_def by blast
    qed
  qed
qed

text \<open>
  With \<open>isAppend\<close> given and falsy, the new item goes to the front of the list, whether or
  not the class is bound already.
\<close>

lemma on_prepend_inserts_front:
  assumes norm: "normalizeHandler rt (heap st) this handler Undefined = Some (Inr nh, h')"
    and mode: "isAppend \<noteq> Undefined" "falsy isAppend"
    and cls: "resolveCls rt (heap st) cls = Inr cls1"
  shows "on rt this st cls name handler data isAppend =
           Some (Inr (), \<lparr>heap = h', events = (events st)(name \<mapsto>
              \<lparr>item0 = cls1, item1 = nh, item2 = (if falsy data then Null else data)\<rparr> # bindings st name)\<rparr>)"
  using assms by (auto simp: on_def Let_def bindings_def split: option.splits)


text \<open>\<open>Event.on(A, 'e', h1)\<close>, then \<open>Event.on(A, 'e', h2)\<close>: only \<open>h1\<close> stays bound.\<close>

theorem on_append_no_duplicate_witness:
  "on rt0 (Obj EventClass) (registry [itemOf classA fnH1]) (Obj classA) ''e'' (Obj fnH2) Undefined Undefined
     = Some (Inr (), registry [itemOf classA fnH1]) \<and>
   (\<exists>i \<in> set (bindings (registry [itemOf classA fnH1]) ''e''). item0 i = Obj classA) \<and>
   distinct (map item0 (bindings (registry [itemOf classA fnH1]) ''e''))"
proof -
  have run: "on rt0 (Obj EventClass) (registry [itemOf classA fnH1]) (Obj classA) ''e'' (Obj fnH2)
               Undefined Undefined = Some (Inr (), registry [itemOf classA fnH1])"
    by (simp add: on_def heap0_resolve registry_def itemOf_def normalizeHandler_function heap0_fnH2)
  have mode: "Undefined = Undefined \<or> truthy Undefined" by simp
  have cls: "resolveCls rt0 (heap (registry [itemOf classA fnH1])) (Obj classA) = Inr (Obj classA)"
    by (simp add: registry_def heap0_resolve)
  have bound: "\<exists>i \<in> set (bindings (registry [itemOf classA fnH1]) ''e''). item0 i = Obj classA"
    and d: "distinct (map item0 (bindings (registry [itemOf classA fnH1]) ''e''))"
    by (simp_all add: bindings_def registry_def itemOf_def)
  from on_append_no_duplicate [OF run mode cls] bound d run show ?thesis by simp
qed

text \<open>
  C7. \<open>Event.on(A, 'e', h1)\<close>, then \<open>Event.on(A, 'e', h2, null, false)\<close>: the item of \<open>h2\<close>
  is put in front of the item of \<open>h1\<close>. Triggering \<open>'e'\<close> on \<open>A\<close> then calls neither of
  them, because the walk starts at \<open>A.constructor\<close> (see C2).
\<close>

theorem prepend_then_trigger_on_bare_class:
  "on rt0 (Obj EventClass) (registry [itemOf classA fnH1]) (Obj classA) ''e'' (Obj fnLog) Undefined (Bool False)
     = Some (Inr (), registry [itemOf classA fnLog, itemOf classA fnH1]) \<and>
   trigger rt0 (registry [itemOf classA fnLog, itemOf classA fnH1]) (Obj classA) ''e'' None
     = Some (Some (None, new_Event\<lparr>e_name := Str ''e'', e_sender := Obj classA\<rparr>, []))"
proof
  have n: "normalizeHandler rt0 (heap (registry [itemOf classA fnH1])) (Obj EventClass) (Obj fnLog) Undefined
             = Some (Inr (Some \<lparr>hcontext = Null, hcallback = Obj fnLog\<rparr>), heap0)"
    by (simp add: registry_def normalizeHandler_function heap0_fnLog)
  show "on rt0 (Obj EventClass) (registry [itemOf classA fnH1]) (Obj classA) ''e'' (Obj fnLog) Undefined (Bool False)
     = Some (Inr (), registry [itemOf classA fnLog, itemOf classA fnH1])"
    by (subst on_prepend_inserts_front [OF n]) (simp_all add: registry_def itemOf_def bindings_def heap0_resolve)
  show "trigger rt0 (registry [itemOf classA fnLog, itemOf classA fnH1]) (Obj classA) ''e'' None
     = Some (Some (None, new_Event\<lparr>e_name := Str ''e'', e_sender := Obj classA\<rparr>, []))"
    by (simp add: trigger_def heap0_resolve registry_def heap0_constructor new_Event_def)
       (simp add: triggerLoop.simps itemOf_def heap0_def mkobj_def rt0_def Let_def)
qed

text \<open>Triggering on an instance of \<open>A\<close> calls \<open>h2\<close> first and \<open>h1\<close> second.\<close>

lemma prepended_runs_first_on_instance:
  "map fst (calls (the (trigger rt0 (registry [itemOf classA fnLog, itemOf classA fnH1]) (Obj instA) ''e'' None)))
     = [itemOf classA fnLog, itemOf classA fnH1]"
  by (simp add: trigger_def heap0_resolve registry_def heap0_constructor new_Event_def)
     (simp add: triggerLoop.simps itemOf_def heap0_def mkobj_def rt0_def Let_def)

subsection \<open>Normalizing handlers\<close>

text \<open>
  C10 as the code has it. Let the handler be an array \<open>[t, m]\<close> of two strings that does
  not itself carry the keys \<open>callback\<close> and \<open>context\<close>. \<open>normalizeHandler\<close> first calls
  \<open>Jii.namespace(t)\<close>. If that throws, the error is passed on and the array is as it was.
  If it returns \<open>v\<close>, the first element of the very array that was passed is replaced by
  \<open>v\<close>, and then \<open>{context: v, callback: v[m]}\<close> is built; the replacement stays when reading
  \<open>v[m]\<close> throws. \<open>on\<close> and \<open>off\<close> throw before normalizing when their class does not
  resolve, and pass the error of \<open>Jii.namespace(t)\<close> on, the array being untouched in both
  cases; otherwise they return with the array changed in the same way.
\<close>

theorem pair_form_mutates_array:
  assumes arr: "kind (heap st a) = Array" "props (heap st a) ''length'' = Some (Num 2)"
      "props (heap st a) ''0'' = Some (Str t)" "props (heap st a) ''1'' = Some (Str m)"
      "props (heap st a) ''callback'' = None \<or> props (heap st a) ''context'' = None"
  shows "normalizeHandler rt (heap st) this (Obj a) c =
           (case namespace rt (Str t) of
              Inl e \<Rightarrow> Some (Inl e, heap st)
            | Inr v \<Rightarrow>
                map_option
                  (\<lambda>g. (case g of Inl e \<Rightarrow> Inl e
                               | Inr f \<Rightarrow> Inr (Some \<lparr>hcontext = v, hcallback = f\<rparr>),
                        setProp (heap st) a ''0'' v))
                  (getv rt (setProp (heap st) a ''0'' v) v m)) \<and>
         (\<forall>e. resolveCls rt (heap st) cls = Inl e \<longrightarrow>
            on rt this st cls name (Obj a) data isAppend = Some (Inl e, st) \<and>
            off rt this st cls name (Obj a) = Some (Inl e, st)) \<and>
         (\<forall>cls1 e. resolveCls rt (heap st) cls = Inr cls1 \<and> namespace rt (Str t) = Inl e \<longrightarrow>
            on rt this st cls name (Obj a) data isAppend = Some (Inl e, st) \<and>
            off rt this st cls name (Obj a) = Some (Inl e, st)) \<and>
         (\<forall>cls1 v g. resolveCls rt (heap st) cls = Inr cls1 \<and> namespace rt (Str t) = Inr v \<and>
              getv rt (setProp (heap st) a ''0'' v) v m = Some g \<longrightarrow>
            (\<exists>out st'. on rt this st cls name (Obj a) data isAppend = Some (out, st') \<and>
               heap st' = setProp (heap st) a ''0'' v) \<and>
            (\<exists>out st'. off rt this st cls name (Obj a) = Some (out, st') \<and>
               heap st' = setProp (heap st) a ''0'' v)) \<and>
         (\<forall>v. props (setProp (heap st) a ''0'' v a) ''0'' = Some v)"
proof -
  let ?h = "heap st"
  have g: "getProp ?h a ''0'' = Some (Str t)" "getProp ?h a ''1'' = Some (Str m)"
    using arr by (simp_all add: getProp.simps)
  have pair: "normalizeHandler rt ?h this (Obj a) c = normalizePair rt ?h a (Str t) (Str m)" for c
    using arr g by (auto simp: normalizeHandler_def)
  have n: "normalizeHandler rt ?h this (Obj a) c =
           (case namespace rt (Str t) of
              Inl e \<Rightarrow> Some (Inl e, ?h)
            | Inr v \<Rightarrow>
                map_option
                  (\<lambda>g. (case g of Inl e \<Rightarrow> Inl e
                               | Inr f \<Rightarrow> Inr (Some \<lparr>hcontext = v, hcallback = f\<rparr>),
                        setProp ?h a ''0'' v))
                  (getv rt (setProp ?h a ''0'' v) v m))" for c
    unfolding pair
    by (auto simp: normalizePair_def split: sum.splits option.splits)
  have same: "st\<lparr>heap := heap st\<rparr> = st" by simp
  have "on rt this st cls name (Obj a) data isAppend = Some (Inl e, st) \<and>
        off rt this st cls name (Obj a) = Some (Inl e, st)"
    if "resolveCls rt ?h cls = Inl e" for e
    using that by (simp add: on_def off_def)
  moreover have "on rt this st cls name (Obj a) data isAppend = Some (Inl e, st) \<and>
        off rt this st cls name (Obj a) = Some (Inl e, st)"
    if "resolveCls rt ?h cls = Inr cls1 \<and> namespace rt (Str t) = Inl e" for cls1 e
    using that by (simp add: on_def off_def n same)
  moreover have "(\<exists>out st'. on rt this st cls name (Obj a) data isAppend = Some (out, st') \<and>
               heap st' = setProp ?h a ''0'' v) \<and>
            (\<exists>out st'. off rt this st cls name (Obj a) = Some (out, st') \<and>
               heap st' = setProp ?h a ''0'' v)"
    if "resolveCls rt ?h cls = Inr cls1 \<and> namespace rt (Str t) = Inr v \<and>
          getv rt (setProp ?h a ''0'' v) v m = Some g" for cls1 v g
    using that
    by (cases g) (auto simp: on_def off_def n Let_def split: option.splits sum.splits)
  moreover have "props (setProp ?h a ''0'' v a) ''0'' = Some v" for v
    by (simp add: setProp_def)
  ultimately show ?thesis using n [of c] by blast
qed

lemma heap0_pairArr:
  "kind (heap0 pairArr) = Array" "props (heap0 pairArr) ''length'' = Some (Num 2)"
  "props (heap0 pairArr) ''0'' = Some (Str ''A'')" "props (heap0 pairArr) ''1'' = Some (Str ''log'')"
  "props (heap0 pairArr) ''callback'' = None"
  by (simp_all add: heap0_def mkobj_def)

lemma heap0_pairArrZ:
  "kind (heap0 pairArrZ) = Array" "props (heap0 pairArrZ) ''length'' = Some (Num 2)"
  "props (heap0 pairArrZ) ''0'' = Some (Str ''Z'')" "props (heap0 pairArrZ) ''1'' = Some (Str ''log'')"
  "props (heap0 pairArrZ) ''callback'' = None"
  by (simp_all add: heap0_def mkobj_def)

text \<open>
  The array \<open>['Z', 'log']\<close>, whose type name the resolver does not know, passed to \<open>on\<close>;
  and the array \<open>['A', 'log']\<close> passed to \<open>on\<close> for the class name \<open>'Z'\<close>: both calls throw
  and leave the state, hence the array with its string, as it was.
\<close>

theorem pair_form_unresolved_counterexample:
  "on rt0 (Obj EventClass) st0 (Obj classA) ''e'' (Obj pairArrZ) Undefined Undefined
     = Some (Inl (Thrown (Str ''UnknownType'')), st0) \<and>
   props (heap st0 pairArrZ) ''0'' = Some (Str ''Z'') \<and>
   on rt0 (Obj EventClass) st0 (Str ''Z'') ''e'' (Obj pairArr) Undefined Undefined
     = Some (Inl (Thrown (Str ''UnknownType'')), st0) \<and>
   props (heap st0 pairArr) ''0'' = Some (Str ''A'')"
proof -
  have h: "heap st0 = heap0" by (simp add: st0_def)
  have z: "namespace rt0 (Str ''Z'') = Inl (Thrown (Str ''UnknownType''))" by (simp add: rt0_def)
  have "normalizeHandler rt0 heap0 (Obj EventClass) (Obj pairArrZ) Undefined
          = Some (Inl (Thrown (Str ''UnknownType'')), heap0)"
    by (simp add: normalizeHandler_def normalizePair_def heap0_pairArrZ getProp.simps z)
  then have "on rt0 (Obj EventClass) st0 (Obj classA) ''e'' (Obj pairArrZ) Undefined Undefined
     = Some (Inl (Thrown (Str ''UnknownType'')), st0)"
    by (simp add: on_def h heap0_resolve)
  moreover have "on rt0 (Obj EventClass) st0 (Str ''Z'') ''e'' (Obj pairArr) Undefined Undefined
     = Some (Inl (Thrown (Str ''UnknownType'')), st0)"
    by (simp add: on_def resolveCls_def z)
  ultimately show ?thesis by (simp add: h heap0_pairArr heap0_pairArrZ)
qed

text \<open>
  The array \<open>['A', 'log']\<close>, passed to \<open>normalizeHandler\<close> and to \<open>on\<close> for the class \<open>B\<close>:
  its first element becomes the class \<open>A\<close>.
\<close>

theorem pair_form_mutates_array_witness:
  "props (heap0 pairArr) ''0'' = Some (Str ''A'') \<and>
   normalizeHandler rt0 heap0 (Obj EventClass) (Obj pairArr) Undefined
     = Some (Inr (Some \<lparr>hcontext = Obj classA, hcallback = Undefined\<rparr>),
             setProp heap0 pairArr ''0'' (Obj classA)) \<and>
   (\<exists>out st'. on rt0 (Obj EventClass) st0 (Obj classB) ''e'' (Obj pairArr) Undefined Undefined
        = Some (out, st') \<and> heap st' = setProp heap0 pairArr ''0'' (Obj classA)) \<and>
   props (setProp heap0 pairArr ''0'' (Obj classA) pairArr) ''0'' = Some (Obj classA)"
proof -
  have h: "heap st0 = heap0" by (simp add: st0_def)
  have ns: "namespace rt0 (Str ''A'') = Inr (Obj classA)" by (simp add: rt0_def)
  have meth: "getv rt0 (setProp heap0 pairArr ''0'' (Obj classA)) (Obj classA) ''log''
                = Some (Inr Undefined)"
    by (simp add: getProp.simps setProp_def heap0_def mkobj_def)
  have cls: "resolveCls rt0 heap0 (Obj classB) = Inr (Obj classB)" by (rule heap0_resolve)
  from pair_form_mutates_array [where st = st0 and a = pairArr and rt = rt0 and cls = "Obj classB"
      and this = "Obj EventClass" and c = Undefined and name = "''e''" and data = Undefined
      and isAppend = Undefined, unfolded h, OF heap0_pairArr(1-4) disjI1 [OF heap0_pairArr(5)]]
  show ?thesis
    using heap0_pairArr(3) ns meth cls by (simp add: h)
qed




text \<open>
  \<open>false\<close> is neither \<open>null\<close> nor \<open>undefined\<close> and has none of the five accepted shapes,
  yet \<open>normalizeHandler(false)\<close> returns \<open>null\<close> and throws nothing.
\<close>

theorem falsy_non_null_counterexample:
  "\<not> spec_acceptedShape heap0 (Bool False) \<and> Bool False \<noteq> Null \<and> Bool False \<noteq> Undefined \<and>
   normalizeHandler rt0 heap0 (Obj EventClass) (Bool False) Undefined = Some (Inr None, heap0)"
  by (simp add: spec_acceptedShape_def normalizeHandler_def)

text \<open>
  Nor does an array of length two of any other shape reach the check of the format, such
  as \<open>[5, m]\<close>, which is normalized to \<open>{context: 5, callback: 5[m]}\<close>.
\<close>

lemma pair_of_other_values_is_accepted:
  assumes "kind (h a) = Array" "props (h a) ''length'' = Some (Num 2)"
    "props (h a) ''0'' = Some (Num 5)" "props (h a) ''1'' = Some (Str m)"
    "props (h a) ''callback'' = None"
  shows "\<not> spec_acceptedShape h (Obj a) \<and>
         normalizeHandler rt h this (Obj a) c
           = Some (Inr (Some \<lparr>hcontext = Num 5, hcallback = primGet rt h (Num 5) m\<rparr>), h)"
  using assms
  by (simp add: spec_acceptedShape_def normalizeHandler_def normalizePair_def getProp.simps)

text \<open>
  A \<open>String\<close> object is a string for lodash: \<open>new String('log')\<close> is taken as a method name.
\<close>

lemma string_object_is_method_name:
  "normalizeHandler rt0 heap0 (Obj EventClass) (Obj strLog) Undefined
     = Some (Inr (Some \<lparr>hcontext = Null, hcallback = Obj fnLog\<rparr>), heap0)"
proof -
  have "kind (heap0 strLog) = StringObject" "props (heap0 strLog) ''callback'' = None"
    by (simp_all add: heap0_def mkobj_def)
  moreover have "propKey rt0 heap0 (Obj strLog) = ''log''" by (simp add: rt0_def)
  moreover have "getProp heap0 EventClass ''log'' = Some (Obj fnLog)"
    by (simp add: getProp.simps heap0_def mkobj_def)
  ultimately show ?thesis by (simp add: normalizeHandler_def)
qed

text \<open>
  C8 as the code has it. Every falsy value (\<open>null\<close>, \<open>undefined\<close>, \<open>false\<close>, \<open>0\<close>, the empty
  string) is normalized to \<open>null\<close>, nothing being thrown. A truthy value that has none of
  the five accepted shapes and is not an array of length two makes \<open>normalizeHandler\<close>
  throw: what \<open>JSON.stringify\<close> throws when it cannot render the value (a \<open>TypeError\<close> for
  a circular object), and otherwise an \<open>ApplicationException\<close> whose message is
  \<open>'Wrong handler format:'\<close> followed by the text \<open>JSON.stringify\<close> returned. In each of
  these cases the heap is left as it was.
\<close>

theorem normalizeHandler_none_or_malformed:
  "(falsy v \<longrightarrow> normalizeHandler rt h this v c = Some (Inr None, h)) \<and>
   (\<not> falsy v \<and> \<not> spec_acceptedShape h v \<and> \<not> (isArray h v \<and> arrayLength h v = Num 2) \<longrightarrow>
      normalizeHandler rt h this v c =
        (case stringify rt h v of
           Inl e \<Rightarrow> Some (Inl e, h)
         | Inr s \<Rightarrow> Some (Inl (ApplicationException (''Wrong handler format:'' @ s)), h)))"
proof (intro conjI impI)
  assume "falsy v"
  then show "normalizeHandler rt h this v c = Some (Inr None, h)"
    by (simp add: normalizeHandler_def)
next
  assume a: "\<not> falsy v \<and> \<not> spec_acceptedShape h v \<and> \<not> (isArray h v \<and> arrayLength h v = Num 2)"
  then have "\<not> falsy v" and "\<not> (isArray h v \<and> arrayLength h v = Num 2)"
    and "\<not> (isObject v \<and> has h v ''callback'' \<and> has h v ''context'')"
    and "\<not> isString h v" and "\<not> isFunction h v"
    by (auto simp: spec_acceptedShape_def)
  then show "normalizeHandler rt h this v c =
        (case stringify rt h v of
           Inl e \<Rightarrow> Some (Inl e, h)
         | Inr s \<Rightarrow> Some (Inl (ApplicationException (''Wrong handler format:'' @ s)), h))"
    by (auto simp add: normalizeHandler_def)
qed

text \<open>\<open>null\<close>, \<open>undefined\<close>, \<open>true\<close> and the circular object in the small world.\<close>

theorem normalizeHandler_none_or_malformed_witness:
  "normalizeHandler rt0 heap0 (Obj EventClass) Null Undefined = Some (Inr None, heap0) \<and>
   normalizeHandler rt0 heap0 (Obj EventClass) Undefined Undefined = Some (Inr None, heap0) \<and>
   \<not> spec_acceptedShape heap0 (Bool True) \<and>
   normalizeHandler rt0 heap0 (Obj EventClass) (Bool True) Undefined
     = Some (Inl (ApplicationException ''Wrong handler format:true''), heap0) \<and>
   \<not> spec_acceptedShape heap0 (Obj cyclic) \<and>
   normalizeHandler rt0 heap0 (Obj EventClass) (Obj cyclic) Undefined = Some (Inl TypeError, heap0)"
proof -
  have t: "\<not> spec_acceptedShape heap0 (Bool True)"
    by (simp add: spec_acceptedShape_def)
  have k: "kind (heap0 cyclic) = Plain" "props (heap0 cyclic) ''callback'' = None"
    by (simp_all add: heap0_def mkobj_def)
  then have cy: "\<not> spec_acceptedShape heap0 (Obj cyclic)"
    by (simp add: spec_acceptedShape_def)
  have s: "stringify rt0 heap0 (Bool True) = Inr ''true''" "stringify rt0 heap0 (Obj cyclic) = Inl TypeError"
    by (simp_all add: rt0_def)
  from normalizeHandler_none_or_malformed [where v = Null and rt = rt0 and h = heap0
      and this = "Obj EventClass" and c = Undefined]
    normalizeHandler_none_or_malformed [where v = Undefined and rt = rt0 and h = heap0
      and this = "Obj EventClass" and c = Undefined]
    normalizeHandler_none_or_malformed [where v = "Bool True" and rt = rt0 and h = heap0
      and this = "Obj EventClass" and c = Undefined]
    normalizeHandler_none_or_malformed [where v = "Obj cyclic" and rt = rt0 and h = heap0
      and this = "Obj EventClass" and c = Undefined]
  show ?thesis using t cy k s by simp
qed


end
